theory Spec2Isabelle
  imports Complex_Main
begin

text \<open>
  A shallow embedding of \<^verbatim>\<open>phase_03_dqn/utils/replay_buffer.py\<close>: the uniform
  \<^verbatim>\<open>ReplayBuffer\<close>, the prioritized \<^verbatim>\<open>PriortizedReplayBuffer\<close> and the n-step
  \<^verbatim>\<open>RainbowReplayBuffer\<close>, with the properties of their push, sample, length and
  priority update. Each method is a function from the object's state to an error or the
  new state; the outcome of the random generator is an explicit argument of the two
  \<^verbatim>\<open>sample\<close> methods.
\<close>

section \<open>Python, numpy and torch primitives used by \<^verbatim>\<open>replay_buffer.py\<close>\<close>

text \<open>
  Floats (rewards, priorities, probabilities, importance weights) are modelled by exact
  reals: rounding, overflow and underflow of float32/float64 are outside the model. A float
  computation whose IEEE result is \<^verbatim>\<open>inf\<close> or \<^verbatim>\<open>nan\<close> has no real
  value; the primitives below answer \<open>None\<close> there. Python integers are \<open>int\<close>. States
  are opaque values of a type parameter \<open>'s\<close>; actions are integers (the source converts
  them with \<^verbatim>\<open>dtype=torch.long\<close>, which fails outside the 64-bit range). Where the
  source stacks states into a batch they are tensors, given by their shape and their
  entries; their dtype and device, and the \<^verbatim>\<open>device\<close> field that only places the
  result, are left out. Memory is finite where the source asks for a size of its caller's
  choosing: the array allocation of the constructors takes the largest size the machine
  grants as a parameter.

  Exceptions are values. \<open>IndexError\<close>, \<open>ValueError\<close>, \<open>TypeError\<close>,
  \<open>ZeroDivisionError\<close>, \<open>OverflowError\<close>, \<open>MemoryError\<close> and \<open>RuntimeError\<close> are the
  Python exceptions the source can raise (it defines no exception class of its own).
  \<open>NonFinite\<close> is no Python exception: it marks a call in which numpy goes on, with a
  warning only, on \<^verbatim>\<open>inf\<close> or \<^verbatim>\<open>nan\<close> values that the real-number model
  cannot follow.
\<close>

datatype error =
  IndexError | ValueError | TypeError | ZeroDivisionError | OverflowError | MemoryError
  | RuntimeError | NonFinite

definition py_index :: "int \<Rightarrow> nat \<Rightarrow> nat option" where
  \<comment> \<open>Indexing a sequence of length \<open>n\<close> with a Python integer: a negative index counts
      from the end, anything outside \<open>[-n, n)\<close> is out of range.\<close>
  "py_index i n =
     (let j = (if i < 0 then int n + i else i)
      in if 0 \<le> j \<and> j < int n then Some (nat j) else None)"

definition list_set :: "'a list \<Rightarrow> int \<Rightarrow> 'a \<Rightarrow> error + 'a list" where
  \<comment> \<open>\<^verbatim>\<open>xs[i] = v\<close> on a Python list or a one-dimensional numpy array.\<close>
  "list_set xs i v =
     (case py_index i (length xs) of
        None \<Rightarrow> Inl IndexError
      | Some j \<Rightarrow> Inr (xs[j := v]))"

definition list_get_all :: "'a list \<Rightarrow> nat list \<Rightarrow> 'a list option" where
  \<comment> \<open>\<^verbatim>\<open>[xs[i] for i in indices]\<close> for non-negative indices; \<open>None\<close> when one of
      them is out of range.\<close>
  "list_get_all xs indices =
     those (map (\<lambda>i. if i < length xs then Some (xs ! i) else None) indices)"

definition py_mod :: "int \<Rightarrow> int \<Rightarrow> error + int" where
  \<comment> \<open>\<^verbatim>\<open>a % b\<close>: the result takes the sign of the divisor, as \<open>mod\<close> on \<open>int\<close> does.\<close>
  "py_mod a b = (if b = 0 then Inl ZeroDivisionError else Inr (a mod b))"

definition py_slice_to :: "'a list \<Rightarrow> int \<Rightarrow> 'a list" where
  \<comment> \<open>\<^verbatim>\<open>xs[:stop]\<close>\<close>
  "py_slice_to xs stop =
     (if stop < 0 then take (nat (int (length xs) + stop)) xs else take (nat stop) xs)"

definition np_zeros :: "nat \<Rightarrow> int \<Rightarrow> error + real list" where
  \<comment> \<open>\<^verbatim>\<open>np.zeros((n,), dtype=np.float32)\<close> on a machine whose allocator grants
      arrays of at most \<open>avail\<close> elements. Negative dimensions are not allowed, and the
      size in bytes (4 per element) must fit the signed 64-bit index type: ValueError.
      An array the allocator refuses is a MemoryError.\<close>
  "np_zeros avail n =
     (if n < 0 then Inl ValueError
      else if 2 ^ 63 \<le> 4 * n then Inl ValueError
      else if int avail < n then Inl MemoryError
      else Inr (replicate (nat n) 0))"

definition array_max :: "real list \<Rightarrow> real option" where
  \<comment> \<open>\<^verbatim>\<open>arr.max()\<close>: a zero-size array has no maximum (numpy raises ValueError).\<close>
  "array_max xs = (case xs of [] \<Rightarrow> None | x # rest \<Rightarrow> Some (fold max rest x))"

definition np_power :: "real \<Rightarrow> real \<Rightarrow> real option" where
  \<comment> \<open>\<^verbatim>\<open>x ** a\<close> on floats. \<open>None\<close>: the float result is \<^verbatim>\<open>inf\<close> (zero to a
      negative power) or \<^verbatim>\<open>nan\<close> (a negative base to a fractional power).\<close>
  "np_power x a =
     (if a = 0 then Some 1
      else if 0 < x then Some (x powr a)
      else if x = 0 then (if 0 < a then Some 0 else None)
      else if frac a = 0 then Some (x powi \<lfloor>a\<rfloor>)
      else None)"

definition deque_append :: "nat \<Rightarrow> 'a list \<Rightarrow> 'a \<Rightarrow> 'a list" where
  \<comment> \<open>\<^verbatim>\<open>append\<close> on a \<^verbatim>\<open>deque(maxlen=n)\<close>: once full, the oldest entries fall
      out on the left.\<close>
  "deque_append n xs x = (let ys = xs @ [x] in drop (length ys - n) ys)"

definition deque_new :: "int \<Rightarrow> error + 'a list" where
  \<comment> \<open>\<^verbatim>\<open>deque(maxlen=n)\<close>: maxlen must be non-negative (ValueError) and fit the
      signed 64-bit size type (OverflowError). Nothing is allocated for it.\<close>
  "deque_new n =
     (if n < 0 then Inl ValueError
      else if 2 ^ 63 \<le> n then Inl OverflowError
      else Inr [])"

definition random_sample :: "'a list \<Rightarrow> int \<Rightarrow> nat list \<Rightarrow> error + 'a list" where
  \<comment> \<open>\<^verbatim>\<open>random.sample(population, k)\<close>. \<open>draw\<close> is the outcome of the generator:
      the positions it picked, which the library promises to be \<open>k\<close> distinct positions
      of the population. A sample larger than the population, or a negative one, is a
      ValueError. Positions the library cannot pick are answered with IndexError, so that
      no list is read out of range.\<close>
  "random_sample population k draw =
     (if k < 0 \<or> int (length population) < k then Inl ValueError
      else (case list_get_all population draw of
              None \<Rightarrow> Inl IndexError
            | Some batch \<Rightarrow> Inr batch))"

definition np_random_choice ::
  "nat \<Rightarrow> int \<Rightarrow> real list option \<Rightarrow> nat list \<Rightarrow> error + nat list" where
  \<comment> \<open>\<^verbatim>\<open>np.random.choice(a, size, p=p)\<close> with an integer \<open>a\<close> and the size
      \<open>k\<close>, drawing with replacement. \<open>p = None\<close> stands for a probability vector
      holding \<^verbatim>\<open>nan\<close>. numpy raises ValueError for a negative size, for \<open>a = 0\<close>
      unless no sample is taken, for a \<open>p\<close> of another size than \<open>a\<close>, for negative or
      \<^verbatim>\<open>nan\<close> probabilities and for probabilities that do not sum to 1. \<open>draw\<close> is
      the outcome of the generator: the library promises \<open>k\<close> positions below \<open>a\<close>,
      each of positive probability.\<close>
  "np_random_choice a k p draw =
     (case p of
        None \<Rightarrow> Inl ValueError
      | Some probs \<Rightarrow>
          if k < 0 \<or> (a = 0 \<and> k \<noteq> 0) \<or> length probs \<noteq> a
             \<or> list_ex (\<lambda>x. x < 0) probs \<or> sum_list probs \<noteq> 1
          then Inl ValueError
          else Inr draw)"

section \<open>Transitions\<close>

type_synonym 's transition = "'s \<times> int \<times> real \<times> 's \<times> bool"
  \<comment> \<open>\<^verbatim>\<open>(state, action, reward, next_state, done)\<close>\<close>

type_synonym 's transition6 = "'s \<times> int \<times> real \<times> 's \<times> bool \<times> int option"
  \<comment> \<open>\<^verbatim>\<open>(state, action, reward, next_state, done, next_action)\<close>, where
      \<^verbatim>\<open>next_action\<close> defaults to \<^verbatim>\<open>None\<close>\<close>

definition float_of_bool :: "bool \<Rightarrow> real" where
  \<comment> \<open>a Python bool in float arithmetic, and in a float32 tensor\<close>
  "float_of_bool d = (if d then 1 else 0)"

definition state_of :: "'s transition \<Rightarrow> 's" where
  \<comment> \<open>\<^verbatim>\<open>transition[0]\<close>\<close>
  "state_of t = (case t of (s, act, r, n_s, d) \<Rightarrow> s)"

definition action_of :: "'s transition \<Rightarrow> int" where
  \<comment> \<open>\<^verbatim>\<open>transition[1]\<close>\<close>
  "action_of t = (case t of (s, act, r, n_s, d) \<Rightarrow> act)"

definition next_state_of :: "'s transition \<Rightarrow> 's" where
  \<comment> \<open>\<^verbatim>\<open>transition[3]\<close>\<close>
  "next_state_of t = (case t of (s, act, r, n_s, d) \<Rightarrow> n_s)"

definition is_done :: "'s transition \<Rightarrow> bool" where
  \<comment> \<open>\<^verbatim>\<open>transition[4]\<close>, the terminal flag\<close>
  "is_done t = (case t of (s, act, r, n_s, d) \<Rightarrow> d)"

section \<open>Tensors\<close>

datatype tensor = Tensor (shape: "nat list") (entries: "real list")

definition same_shape :: "tensor list \<Rightarrow> bool" where
  "same_shape ts = (case ts of [] \<Rightarrow> True | t # rest \<Rightarrow> list_all (\<lambda>u. shape u = shape t) rest)"

definition torch_stack :: "tensor list \<Rightarrow> error + tensor list" where
  \<comment> \<open>\<^verbatim>\<open>torch.stack(ts)\<close>: the list must not be empty and its tensors must all have
      one shape, else RuntimeError. The stacked tensor is given by its rows.\<close>
  "torch_stack ts = (if ts \<noteq> [] \<and> same_shape ts then Inr ts else Inl RuntimeError)"

definition int64 :: "int \<Rightarrow> bool" where
  "int64 x \<longleftrightarrow> - (2 ^ 63) \<le> x \<and> x < 2 ^ 63"

definition torch_tensor_long :: "int list \<Rightarrow> error + int list" where
  \<comment> \<open>\<^verbatim>\<open>torch.tensor(xs, dtype=torch.long)\<close> on Python integers: a value outside the
      64-bit range is a RuntimeError (overflow when unpacking).\<close>
  "torch_tensor_long xs = (if list_all int64 xs then Inr xs else Inl RuntimeError)"

section \<open>class ReplayBuffer\<close>

record 's replay_buffer =
  capacity :: int
  buffer :: "'s transition6 option list"
  pos :: int

definition ReplayBuffer_init :: "int \<Rightarrow> 's replay_buffer" where
  "ReplayBuffer_init cap = \<lparr>capacity = cap, buffer = [], pos = 0\<rparr>"

definition ReplayBuffer_push :: "'s replay_buffer \<Rightarrow> 's transition6 \<Rightarrow> error + 's replay_buffer" where
  "ReplayBuffer_push b item =
     (let buf = (if int (length (buffer b)) < replay_buffer.capacity b
                 then buffer b @ [None] else buffer b)
      in case list_set buf (replay_buffer.pos b) (Some item) of
           Inl e \<Rightarrow> Inl e
         | Inr buf' \<Rightarrow>
             (case py_mod (replay_buffer.pos b + 1) (replay_buffer.capacity b) of
                Inl e \<Rightarrow> Inl e
              | Inr p \<Rightarrow> Inr (b\<lparr>buffer := buf', replay_buffer.pos := p\<rparr>)))"

definition ReplayBuffer_sample ::
  "tensor replay_buffer \<Rightarrow> int \<Rightarrow> nat list \<Rightarrow>
   error + (tensor list \<times> int list \<times> real list \<times> tensor list \<times> real list \<times> int list)" where
  \<comment> \<open>\<^verbatim>\<open>zip(*batch)\<close> fails on an entry that is \<^verbatim>\<open>None\<close> (TypeError); unpacking
      its result into six names fails on an empty batch (ValueError). Lines 23 to 27
      convert the columns, of which the stacking of the states and of the next states and
      the conversion of the actions can fail. Line 28 builds \<^verbatim>\<open>next_actions\<close> from
      the tensor \<^verbatim>\<open>actions\<close>; the unzipped \<^verbatim>\<open>next_actions\<close> is overwritten
      unread.\<close>
  "ReplayBuffer_sample b batch_size draw =
     (case random_sample (buffer b) batch_size draw of
        Inl e \<Rightarrow> Inl e
      | Inr batch \<Rightarrow>
          (case those batch of
             None \<Rightarrow> Inl TypeError
           | Some rows \<Rightarrow>
               if rows = [] then Inl ValueError
               else
                 (case torch_stack (map (\<lambda>(s, a, r, n_s, d, n_a). s) rows) of
                    Inl e \<Rightarrow> Inl e
                  | Inr states \<Rightarrow>
                      (case torch_tensor_long (map (\<lambda>(s, a, r, n_s, d, n_a). a) rows) of
                         Inl e \<Rightarrow> Inl e
                       | Inr actions \<Rightarrow>
                           (case torch_stack (map (\<lambda>(s, a, r, n_s, d, n_a). n_s) rows) of
                              Inl e \<Rightarrow> Inl e
                            | Inr next_states \<Rightarrow>
                                let rewards = map (\<lambda>(s, a, r, n_s, d, n_a). r) rows;
                                    dones = map (\<lambda>(s, a, r, n_s, d, n_a). float_of_bool d) rows;
                                    next_actions = actions
                                in Inr (states, actions, rewards, next_states, dones,
                                        next_actions))))))"

definition ReplayBuffer_len :: "'s replay_buffer \<Rightarrow> nat" where
  "ReplayBuffer_len b = length (buffer b)"

fun ReplayBuffer_pushes :: "'s replay_buffer \<Rightarrow> 's transition6 list \<Rightarrow> error + 's replay_buffer" where
  "ReplayBuffer_pushes b [] = Inr b"
| "ReplayBuffer_pushes b (item # items) =
     (case ReplayBuffer_push b item of
        Inl e \<Rightarrow> Inl e
      | Inr b' \<Rightarrow> ReplayBuffer_pushes b' items)"

definition batch_of_rows ::
  "'s transition6 list \<Rightarrow> 's list \<times> int list \<times> real list \<times> 's list \<times> real list \<times> int list" where
  \<comment> \<open>the six tensors \<^verbatim>\<open>ReplayBuffer.sample\<close> returns for the sampled rows, when
      their conversion succeeds\<close>
  "batch_of_rows rows =
     (map (\<lambda>(s, a, r, n_s, d, n_a). s) rows, map (\<lambda>(s, a, r, n_s, d, n_a). a) rows,
      map (\<lambda>(s, a, r, n_s, d, n_a). r) rows, map (\<lambda>(s, a, r, n_s, d, n_a). n_s) rows,
      map (\<lambda>(s, a, r, n_s, d, n_a). float_of_bool d) rows, map (\<lambda>(s, a, r, n_s, d, n_a). a) rows)"

definition forget_next_action :: "'s transition6 option \<Rightarrow> 's transition option" where
  \<comment> \<open>a buffer entry without the \<^verbatim>\<open>next_action\<close> that was pushed with it\<close>
  "forget_next_action entry = map_option (\<lambda>(s, a, r, n_s, d, n_a). (s, a, r, n_s, d)) entry"

section \<open>class PriortizedReplayBuffer\<close>

record 's prio_buffer =
  capacity :: int
  alpha :: real
  beta :: real
  beta_increment :: real
  epsilon :: real
  memory :: "'s transition list"
  priorities :: "real list"
  pos :: int

definition PriortizedReplayBuffer_init ::
  "nat \<Rightarrow> int \<Rightarrow> real \<Rightarrow> real \<Rightarrow> real \<Rightarrow> real \<Rightarrow> error + 's prio_buffer" where
  \<comment> \<open>\<open>avail\<close> is the largest array the machine grants, see \<open>np_zeros\<close>\<close>
  "PriortizedReplayBuffer_init avail cap a b b_inc eps =
     (case np_zeros avail cap of
        Inl e \<Rightarrow> Inl e
      | Inr zeros \<Rightarrow>
          Inr \<lparr>capacity = cap, alpha = a, beta = b, beta_increment = b_inc, epsilon = eps,
               memory = [], priorities = zeros, pos = 0\<rparr>)"

definition store_push ::
  "('s, 'z) prio_buffer_scheme \<Rightarrow> 's transition \<Rightarrow> error + ('s, 'z) prio_buffer_scheme" where
  \<comment> \<open>Lines 49 to 57 of \<^verbatim>\<open>PriortizedReplayBuffer.push\<close>, which lines 122 to 131 of
      \<^verbatim>\<open>RainbowReplayBuffer.push\<close> repeat on the folded transition.\<close>
  "store_push b data =
     (case (if memory b \<noteq> [] then array_max (priorities b) else Some 1) of
        None \<Rightarrow> Inl ValueError
      | Some max_prior \<Rightarrow>
          (case (if int (length (memory b)) < capacity b
                 then Inr (memory b @ [data])
                 else list_set (memory b) (pos b) data) of
             Inl e \<Rightarrow> Inl e
           | Inr mem' \<Rightarrow>
               (case list_set (priorities b) (pos b) max_prior of
                  Inl e \<Rightarrow> Inl e
                | Inr prios' \<Rightarrow>
                    (case py_mod (pos b + 1) (capacity b) of
                       Inl e \<Rightarrow> Inl e
                     | Inr p \<Rightarrow> Inr (b\<lparr>memory := mem', priorities := prios', pos := p\<rparr>)))))"

definition PriortizedReplayBuffer_push ::
  "'s prio_buffer \<Rightarrow> 's transition \<Rightarrow> error + 's prio_buffer" where
  "PriortizedReplayBuffer_push b item = store_push b item"

definition sampling_probs :: "real list \<Rightarrow> real \<Rightarrow> real \<Rightarrow> real list option" where
  \<comment> \<open>\<^verbatim>\<open>probs = (priorties + epsilon) ** alpha; probs /= probs.sum()\<close>. \<open>None\<close>:
      the vector holds \<^verbatim>\<open>inf\<close> or \<^verbatim>\<open>nan\<close>, from a power or from the division
      by a zero sum.\<close>
  "sampling_probs priorties eps a =
     (case those (map (\<lambda>p. np_power (p + eps) a) priorties) of
        None \<Rightarrow> None
      | Some raw \<Rightarrow>
          if raw \<noteq> [] \<and> sum_list raw = 0 then None
          else Some (map (\<lambda>x. x / sum_list raw) raw))"

definition is_weights :: "nat \<Rightarrow> real list \<Rightarrow> nat list \<Rightarrow> real \<Rightarrow> real list option" where
  \<comment> \<open>\<^verbatim>\<open>weights = (total * probs[indices]) ** (-beta); weights /= weights.max()\<close>.
      with \<open>n_total\<close> for \<^verbatim>\<open>total\<close>. \<open>None\<close>: a weight is \<^verbatim>\<open>inf\<close>, or the
      maximum is zero and the division gives \<^verbatim>\<open>nan\<close>.\<close>
  "is_weights n_total probs indices b =
     (case those (map (\<lambda>i. np_power (real n_total * probs ! i) (- b)) indices) of
        None \<Rightarrow> None
      | Some raw \<Rightarrow>
          (case array_max raw of
             None \<Rightarrow> None
           | Some m \<Rightarrow> if m = 0 then None else Some (map (\<lambda>w. w / m) raw)))"

definition PriortizedReplayBuffer_sample ::
  "(tensor, 'z) prio_buffer_scheme \<Rightarrow> int \<Rightarrow> nat list \<Rightarrow>
   error + ((tensor list \<times> int list \<times> real list \<times> tensor list \<times> real list \<times> real list
             \<times> nat list)
            \<times> (tensor, 'z) prio_buffer_scheme)" where
  \<comment> \<open>Lines 59 to 88; \<^verbatim>\<open>RainbowReplayBuffer.sample\<close> (lines 133 to 162) is the same
      text. Lines 75 to 79 convert the columns, of which the stacking of the states and of
      the next states and the conversion of the actions can fail. Every exception is
      raised before line 84, so a failing call leaves \<open>beta\<close> as it was.\<close>
  "PriortizedReplayBuffer_sample b batch_size draw =
     (let priorties = (if int (length (memory b)) = capacity b then priorities b
                       else py_slice_to (priorities b) (pos b));
          probs = sampling_probs priorties (epsilon b) (alpha b)
      in case np_random_choice (length (memory b)) batch_size probs draw of
           Inl e \<Rightarrow> Inl e
         | Inr indices \<Rightarrow>
             (case list_get_all (memory b) indices of
                None \<Rightarrow> Inl IndexError
              | Some samples \<Rightarrow>
                  if samples = [] then Inl ValueError
                  else
                    (case torch_stack (map state_of samples) of
                       Inl e \<Rightarrow> Inl e
                     | Inr states \<Rightarrow>
                         (case torch_tensor_long (map action_of samples) of
                            Inl e \<Rightarrow> Inl e
                          | Inr actions \<Rightarrow>
                              (case torch_stack (map next_state_of samples) of
                                 Inl e \<Rightarrow> Inl e
                               | Inr next_states \<Rightarrow>
                                   let rewards = map (\<lambda>(s, a, r, n_s, d). r) samples;
                                       dones = map (\<lambda>(s, a, r, n_s, d). float_of_bool d) samples;
                                       n_total = length (memory b)
                                   in (case is_weights n_total (the probs) indices (beta b) of
                                         None \<Rightarrow> Inl NonFinite
                                       | Some weights \<Rightarrow>
                                           Inr ((states, actions, rewards, next_states, dones,
                                                 weights, indices),
                                                b\<lparr>beta := min 1 (beta b + beta_increment b)\<rparr>)))))))"

fun update_loop :: "real list \<Rightarrow> (int \<times> real) list \<Rightarrow> error option \<times> real list" where
  \<comment> \<open>the \<^verbatim>\<open>for\<close> loop of \<^verbatim>\<open>update_priorities\<close>: an exception leaves the array
      with the assignments already made\<close>
  "update_loop prios [] = (None, prios)"
| "update_loop prios ((idx, prior) # rest) =
     (case list_set prios idx prior of
        Inl e \<Rightarrow> (Some e, prios)
      | Inr prios' \<Rightarrow> update_loop prios' rest)"

definition PriortizedReplayBuffer_update_priorities ::
  "('s, 'z) prio_buffer_scheme \<Rightarrow> int list \<Rightarrow> real list \<Rightarrow>
   error option \<times> ('s, 'z) prio_buffer_scheme" where
  \<comment> \<open>Lines 90 to 92; \<^verbatim>\<open>RainbowReplayBuffer.update_priorities\<close> (lines 164 to 166) is
      the same text. The result is the exception raised, if any, and the buffer as the
      call leaves it.\<close>
  "PriortizedReplayBuffer_update_priorities b indicies new_prior =
     (case update_loop (priorities b) (zip indicies new_prior) of
        (e, prios') \<Rightarrow> (e, b\<lparr>priorities := prios'\<rparr>))"

definition PriortizedReplayBuffer_len :: "('s, 'z) prio_buffer_scheme \<Rightarrow> nat" where
  "PriortizedReplayBuffer_len b = length (memory b)"

fun PriortizedReplayBuffer_pushes ::
  "'s prio_buffer \<Rightarrow> 's transition list \<Rightarrow> error + 's prio_buffer" where
  "PriortizedReplayBuffer_pushes b [] = Inr b"
| "PriortizedReplayBuffer_pushes b (item # items) =
     (case PriortizedReplayBuffer_push b item of
        Inl e \<Rightarrow> Inl e
      | Inr b' \<Rightarrow> PriortizedReplayBuffer_pushes b' items)"

definition PriortizedReplayBuffer_run ::
  "error + 's prio_buffer \<Rightarrow> 's transition list \<Rightarrow> error + 's prio_buffer" where
  \<comment> \<open>a constructor call followed by a sequence of pushes\<close>
  "PriortizedReplayBuffer_run constructed items =
     (case constructed of
        Inl e \<Rightarrow> Inl e
      | Inr b \<Rightarrow> PriortizedReplayBuffer_pushes b items)"

section \<open>class RainbowReplayBuffer\<close>

record 's rainbow_buffer = "'s prio_buffer" +
  nstep :: int
  nstep_buffer :: "'s transition list"

definition RainbowReplayBuffer_init ::
  "nat \<Rightarrow> int \<Rightarrow> int \<Rightarrow> real \<Rightarrow> real \<Rightarrow> real \<Rightarrow> real \<Rightarrow> error + 's rainbow_buffer" where
  "RainbowReplayBuffer_init avail cap n a b b_inc eps =
     (case np_zeros avail cap of
        Inl e \<Rightarrow> Inl e
      | Inr zeros \<Rightarrow>
          (case deque_new n of
             Inl e \<Rightarrow> Inl e
           | Inr window \<Rightarrow>
               Inr \<lparr>capacity = cap, alpha = a, beta = b, beta_increment = b_inc, epsilon = eps,
                    memory = [], priorities = zeros, pos = 0,
                    nstep = n, nstep_buffer = window\<rparr>))"

definition RainbowReplayBuffer_default :: "nat \<Rightarrow> int \<Rightarrow> int \<Rightarrow> error + 's rainbow_buffer" where
  \<comment> \<open>\<^verbatim>\<open>RainbowReplayBuffer(capacity, nstep)\<close> with the default arguments of line 99\<close>
  "RainbowReplayBuffer_default avail cap n =
     RainbowReplayBuffer_init avail cap n (6 / 10) (4 / 10) (1 / 1000) (1 / 100000)"

fun nstep_fold :: "real \<Rightarrow> real \<times> 's \<times> bool \<Rightarrow> 's transition list \<Rightarrow> real \<times> 's \<times> bool" where
  \<comment> \<open>the \<^verbatim>\<open>for\<close> loop of \<^verbatim>\<open>_get_nstep_info\<close>; the factor is \<^verbatim>\<open>self.alpha\<close>\<close>
  "nstep_fold a (reward, next_state, done) [] = (reward, next_state, done)"
| "nstep_fold a (reward, next_state, done) ((s, act, r, n_s, d) # rest) =
     nstep_fold a
       (r + a * reward * (1 - float_of_bool d),
        if d then n_s else next_state,
        if d then d else done)
       rest"

definition get_nstep_info :: "'s rainbow_buffer \<Rightarrow> error + (real \<times> 's \<times> bool)" where
  \<comment> \<open>\<^verbatim>\<open>self.nstep_buffer[-1]\<close> raises IndexError on an empty window\<close>
  "get_nstep_info b =
     (if nstep_buffer b = [] then Inl IndexError
      else (case last (nstep_buffer b) of
              (s, act, reward, next_state, done) \<Rightarrow>
                Inr (nstep_fold (alpha b) (reward, next_state, done)
                       (rev (butlast (nstep_buffer b))))))"

definition RainbowReplayBuffer_push ::
  "'s rainbow_buffer \<Rightarrow> int \<Rightarrow> 's transition \<Rightarrow> error + 's rainbow_buffer" where
  \<comment> \<open>The parameter \<^verbatim>\<open>nstep\<close> of \<^verbatim>\<open>push\<close> is never read. Line 123 stores
      \<^verbatim>\<open>done\<close>, the flag of the transition being pushed, and not \<^verbatim>\<open>n_done\<close>.\<close>
  "RainbowReplayBuffer_push b nstep_arg item =
     (case item of (state, action, reward, next_state, done) \<Rightarrow>
        let b1 = b\<lparr>nstep_buffer := deque_append (nat (nstep b)) (nstep_buffer b) item\<rparr>
        in if int (length (nstep_buffer b1)) < nstep b1 then Inr b1
           else
             (case nstep_buffer b1 of
                [] \<Rightarrow> Inl IndexError
              | (n_state, n_action, rest) # later \<Rightarrow>
                  (case get_nstep_info b1 of
                     Inl e \<Rightarrow> Inl e
                   | Inr (n_reward, n_next_state, n_done) \<Rightarrow>
                       store_push b1 (n_state, n_action, n_reward, n_next_state, done))))"

definition RainbowReplayBuffer_sample ::
  "tensor rainbow_buffer \<Rightarrow> int \<Rightarrow> nat list \<Rightarrow>
   error + ((tensor list \<times> int list \<times> real list \<times> tensor list \<times> real list \<times> real list
             \<times> nat list)
            \<times> tensor rainbow_buffer)" where
  "RainbowReplayBuffer_sample b batch_size draw = PriortizedReplayBuffer_sample b batch_size draw"

definition RainbowReplayBuffer_update_priorities ::
  "'s rainbow_buffer \<Rightarrow> int list \<Rightarrow> real list \<Rightarrow> error option \<times> 's rainbow_buffer" where
  "RainbowReplayBuffer_update_priorities b indicies new_prior =
     PriortizedReplayBuffer_update_priorities b indicies new_prior"

fun RainbowReplayBuffer_pushes ::
  "'s rainbow_buffer \<Rightarrow> (int \<times> 's transition) list \<Rightarrow> error + 's rainbow_buffer" where
  "RainbowReplayBuffer_pushes b [] = Inr b"
| "RainbowReplayBuffer_pushes b ((n, item) # items) =
     (case RainbowReplayBuffer_push b n item of
        Inl e \<Rightarrow> Inl e
      | Inr b' \<Rightarrow> RainbowReplayBuffer_pushes b' items)"

definition RainbowReplayBuffer_run ::
  "error + 's rainbow_buffer \<Rightarrow> (int \<times> 's transition) list \<Rightarrow> error + 's rainbow_buffer" where
  \<comment> \<open>a constructor call followed by a sequence of pushes\<close>
  "RainbowReplayBuffer_run constructed items =
     (case constructed of
        Inl e \<Rightarrow> Inl e
      | Inr b \<Rightarrow> RainbowReplayBuffer_pushes b items)"

definition RainbowReplayBuffer_len :: "'s rainbow_buffer \<Rightarrow> nat" where
  "RainbowReplayBuffer_len b = length (memory b)"

section \<open>Well-formed buffers\<close>

definition buffer_ok :: "'s replay_buffer \<Rightarrow> bool" where
  \<comment> \<open>the ring of a \<^verbatim>\<open>ReplayBuffer\<close> with a positive capacity: the cursor is the
      length while the buffer fills, and stays below the capacity afterwards\<close>
  "buffer_ok b \<longleftrightarrow>
     0 < replay_buffer.capacity b \<and> int (length (buffer b)) \<le> replay_buffer.capacity b
     \<and> 0 \<le> replay_buffer.pos b \<and> replay_buffer.pos b < replay_buffer.capacity b
     \<and> (int (length (buffer b)) < replay_buffer.capacity b \<longrightarrow>
          replay_buffer.pos b = int (length (buffer b)))"

definition store_ok :: "('s, 'z) prio_buffer_scheme \<Rightarrow> bool" where
  \<comment> \<open>the same for the store of the two priority buffers, whose priority array has one
      slot per unit of capacity\<close>
  "store_ok b \<longleftrightarrow>
     0 < capacity b \<and> int (length (priorities b)) = capacity b
     \<and> int (length (memory b)) \<le> capacity b
     \<and> 0 \<le> pos b \<and> pos b < capacity b
     \<and> (int (length (memory b)) < capacity b \<longrightarrow> pos b = int (length (memory b)))"

section \<open>Successive sample calls\<close>

definition after_sample ::
  "('b \<Rightarrow> int \<Rightarrow> nat list \<Rightarrow> error + ('x \<times> 'b)) \<Rightarrow> 'b \<Rightarrow> int \<times> nat list \<Rightarrow> 'b" where
  \<comment> \<open>The buffer after the call \<^verbatim>\<open>sample(batch_size)\<close>, for the sample method
      \<open>smp\<close> of either priority buffer, whose generator outcome is \<open>draw\<close>, whether the
      call returns or raises: every exception of \<^verbatim>\<open>sample\<close> is raised before its
      only assignment, the one to \<^verbatim>\<open>self.beta\<close>.\<close>
  "after_sample smp b call =
     (case smp b (fst call) (snd call) of
        Inl e \<Rightarrow> b
      | Inr (batch, b') \<Rightarrow> b')"

text \<open>The values of \<^verbatim>\<open>beta\<close> before, between and after a sequence of sample calls.\<close>

fun beta_trace ::
  "(('s, 'z) prio_buffer_scheme \<Rightarrow> int \<Rightarrow> nat list \<Rightarrow> error + ('x \<times> ('s, 'z) prio_buffer_scheme))
   \<Rightarrow> ('s, 'z) prio_buffer_scheme \<Rightarrow> (int \<times> nat list) list \<Rightarrow> real list" where
  "beta_trace smp b [] = [beta b]"
| "beta_trace smp b (call # calls) = beta b # beta_trace smp (after_sample smp b call) calls"

section \<open>Facts about the primitives\<close>

lemma those_eq:
  "those ys = (if list_all (\<lambda>y. y \<noteq> None) ys then Some (map the ys) else None)"
  by (induction ys) (auto split: option.splits)

lemma list_get_all_eq:
  "list_get_all xs indices =
     (if list_all (\<lambda>i. i < length xs) indices then Some (map ((!) xs) indices) else None)"
  unfolding list_get_all_def those_eq
  by (induction indices) (auto simp: list_all_iff)

text \<open>Unfolding rules for running the n-step buffer on concrete pushes.\<close>

lemmas run_simps =
  RainbowReplayBuffer_run_def RainbowReplayBuffer_default_def RainbowReplayBuffer_init_def
  np_zeros_def deque_new_def RainbowReplayBuffer_push_def deque_append_def get_nstep_info_def
  store_push_def list_set_def py_index_def py_mod_def float_of_bool_def array_max_def

section \<open>The uniform buffer's sample\<close>

lemma ReplayBuffer_sample_eq:
  "ReplayBuffer_sample b batch_size draw =
     (if batch_size < 0 \<or> int (length (buffer b)) < batch_size then Inl ValueError
      else if \<not> list_all (\<lambda>i. i < length (buffer b)) draw then Inl IndexError
      else if \<not> list_all (\<lambda>i. buffer b ! i \<noteq> None) draw then Inl TypeError
      else if draw = [] then Inl ValueError
      else if \<not> same_shape (fst (batch_of_rows (map (\<lambda>i. the (buffer b ! i)) draw)))
              \<or> \<not> list_all int64 (fst (snd (batch_of_rows (map (\<lambda>i. the (buffer b ! i)) draw))))
              \<or> \<not> same_shape
                     (fst (snd (snd (snd (batch_of_rows (map (\<lambda>i. the (buffer b ! i)) draw))))))
           then Inl RuntimeError
      else Inr (batch_of_rows (map (\<lambda>i. the (buffer b ! i)) draw)))"
  by (auto simp: ReplayBuffer_sample_def random_sample_def list_get_all_eq those_eq Let_def
        batch_of_rows_def list_all_iff comp_def torch_stack_def torch_tensor_long_def
      simp del: not_None_eq split_paired_Ex split_paired_All)

lemma forget_next_action_fields:
  assumes "forget_next_action x = forget_next_action y" and "x \<noteq> None"
  shows "fst (the x) = fst (the y) \<and> fst (snd (the x)) = fst (snd (the y)) \<and>
         fst (snd (snd (the x))) = fst (snd (snd (the y))) \<and>
         fst (snd (snd (snd (the x)))) = fst (snd (snd (snd (the y)))) \<and>
         fst (snd (snd (snd (snd (the x))))) = fst (snd (snd (snd (snd (the y)))))"
  using assms by (cases x; cases y) (auto simp: forget_next_action_def split: prod.splits)

lemma batch_of_rows_cong:
  assumes "\<And>i. i \<in> set draw \<Longrightarrow> forget_next_action (f i) = forget_next_action (g i)"
    and "\<And>i. i \<in> set draw \<Longrightarrow> f i \<noteq> None"
  shows "batch_of_rows (map (\<lambda>i. the (f i)) draw) = batch_of_rows (map (\<lambda>i. the (g i)) draw)"
  unfolding batch_of_rows_def
  using forget_next_action_fields [OF assms]
  by (simp add: case_prod_unfold comp_def)

text \<open>
  Claim C10. Whenever \<^verbatim>\<open>ReplayBuffer.sample\<close> returns a batch, its sixth component
  \<^verbatim>\<open>next_actions\<close> is the returned \<^verbatim>\<open>actions\<close>, and the whole batch stays the
  same when the \<^verbatim>\<open>next_action\<close> values stored in the buffer are replaced by any
  others: the values passed to \<^verbatim>\<open>push\<close> never reach the output.
\<close>

theorem ReplayBuffer_sample_next_actions:
  assumes "ReplayBuffer_sample b batch_size draw =
             Inr (states, actions, rewards, next_states, dones, next_actions)"
  shows "next_actions = actions \<and>
         (\<forall>buf'. map forget_next_action buf' = map forget_next_action (buffer b) \<longrightarrow>
            ReplayBuffer_sample (b\<lparr>buffer := buf'\<rparr>) batch_size draw =
              Inr (states, actions, rewards, next_states, dones, actions))"
proof (intro conjI allI impI)
  have ok: "\<not> (batch_size < 0 \<or> int (length (buffer b)) < batch_size)"
      "list_all (\<lambda>i. i < length (buffer b)) draw"
      "list_all (\<lambda>i. buffer b ! i \<noteq> None) draw" "draw \<noteq> []"
    and conv: "\<not> (\<not> same_shape (fst (batch_of_rows (map (\<lambda>i. the (buffer b ! i)) draw)))
              \<or> \<not> list_all int64 (fst (snd (batch_of_rows (map (\<lambda>i. the (buffer b ! i)) draw))))
              \<or> \<not> same_shape
                     (fst (snd (snd (snd (batch_of_rows (map (\<lambda>i. the (buffer b ! i)) draw)))))))"
    and res: "(states, actions, rewards, next_states, dones, next_actions) =
               batch_of_rows (map (\<lambda>i. the (buffer b ! i)) draw)"
    using assms unfolding ReplayBuffer_sample_eq by (simp_all split: if_splits)
  show same: "next_actions = actions"
    using res by (simp add: batch_of_rows_def)
  fix buf'
  assume eq: "map forget_next_action buf' = map forget_next_action (buffer b)"
  then have len: "length buf' = length (buffer b)" by (metis length_map)
  have pointwise: "forget_next_action (buffer b ! i) = forget_next_action (buf' ! i)"
    if "i \<in> set draw" for i
  proof -
    have "i < length (buffer b)" using that ok(2) by (simp add: list_all_iff)
    then show ?thesis using eq len by (metis nth_map)
  qed
  have some: "buffer b ! i \<noteq> None" if "i \<in> set draw" for i
    using that ok(3) by (simp add: list_all_iff)
  have some': "list_all (\<lambda>i. buf' ! i \<noteq> None) draw"
    unfolding list_all_iff
  proof
    fix i assume "i \<in> set draw"
    then show "buf' ! i \<noteq> None"
      using pointwise[of i] some[of i] by (cases "buf' ! i") (simp_all add: forget_next_action_def)
  qed
  have "batch_of_rows (map (\<lambda>i. the (buffer b ! i)) draw) =
        batch_of_rows (map (\<lambda>i. the (buf' ! i)) draw)"
    using pointwise some by (rule batch_of_rows_cong)
  then show "ReplayBuffer_sample (b\<lparr>buffer := buf'\<rparr>) batch_size draw =
              Inr (states, actions, rewards, next_states, dones, actions)"
    using ok some' len res same conv unfolding ReplayBuffer_sample_eq by simp
qed

text \<open>
  The theorem at a buffer holding one transition pushed with action 3 and
  \<^verbatim>\<open>next_action=7\<close>: the batch reports 3 as the next action, and the same batch comes
  out of the buffer in which the stored \<^verbatim>\<open>next_action\<close> is \<^verbatim>\<open>None\<close>.
\<close>

theorem ReplayBuffer_sample_next_actions_witness:
  "ReplayBuffer_push (ReplayBuffer_init 2) (Tensor [1] [10], 3, 1, Tensor [1] [11], False, Some 7) =
     Inr \<lparr>replay_buffer.capacity = 2, buffer = [Some (Tensor [1] [10], 3, 1, Tensor [1] [11], False, Some 7)],
          replay_buffer.pos = 1\<rparr>
   \<and> ReplayBuffer_sample
        \<lparr>replay_buffer.capacity = 2, buffer = [Some (Tensor [1] [10], 3, 1, Tensor [1] [11], False, Some 7)],
         replay_buffer.pos = 1\<rparr> 1 [0]
       = Inr ([Tensor [1] [10]], [3], [1], [Tensor [1] [11]], [0], [3])
   \<and> ReplayBuffer_sample
        \<lparr>replay_buffer.capacity = 2, buffer = [Some (Tensor [1] [10], 3, 1, Tensor [1] [11], False, None)],
         replay_buffer.pos = 1\<rparr> 1 [0]
       = Inr ([Tensor [1] [10]], [3], [1], [Tensor [1] [11]], [0], [3])"
proof -
  let ?b = "\<lparr>replay_buffer.capacity = 2, buffer = [Some (Tensor [1] [10], 3, 1, Tensor [1] [11], False, Some 7)],
             replay_buffer.pos = 1\<rparr>"
  have pushed: "ReplayBuffer_push (ReplayBuffer_init 2) (Tensor [1] [10], 3, 1, Tensor [1] [11], False, Some 7) = Inr ?b"
    by (simp add: ReplayBuffer_push_def ReplayBuffer_init_def list_set_def py_index_def py_mod_def)
  have sampled: "ReplayBuffer_sample ?b 1 [0] = Inr ([Tensor [1] [10]], [3], [1], [Tensor [1] [11]], [0], [3])"
    by (simp add: ReplayBuffer_sample_eq batch_of_rows_def float_of_bool_def same_shape_def
          int64_def del: not_None_eq)
  have other: "map forget_next_action [Some (Tensor [1] [10], 3, 1, Tensor [1] [11], False, None)] =
               map forget_next_action (buffer ?b)"
    by (simp add: forget_next_action_def)
  from ReplayBuffer_sample_next_actions [OF sampled] other
  have "ReplayBuffer_sample (?b\<lparr>buffer := [Some (Tensor [1] [10], 3, 1, Tensor [1] [11], False, None)]\<rparr>) 1 [0] =
          Inr ([Tensor [1] [10]], [3], [1], [Tensor [1] [11]], [0], [3])"
    by blast
  with pushed sampled show ?thesis by simp
qed

section \<open>Construction\<close>




section \<open>Updating priorities\<close>

lemma py_index_None_iff: "py_index i n = None \<longleftrightarrow> i < - int n \<or> int n \<le> i"
  by (auto simp: py_index_def Let_def)

lemma py_index_less: "py_index i n = Some j \<Longrightarrow> j < n"
  by (auto simp: py_index_def Let_def split: if_splits)

lemma py_index_Some_iff:
  "py_index i n = Some j \<longleftrightarrow>
     - int n \<le> i \<and> i < int n \<and> (if i < 0 then int n + i else i) = int j"
  by (auto simp: py_index_def Let_def)

lemma find_snoc:
  "find P (xs @ [x]) = (case find P xs of Some y \<Rightarrow> Some y | None \<Rightarrow> if P x then Some x else None)"
  by (induction xs) auto

lemma update_loop_props:
  assumes "update_loop prios pairs = (e, prios')"
  shows "length prios' = length prios
       \<and> (e = None \<or> e = Some IndexError)
       \<and> (e = Some IndexError \<longleftrightarrow> (\<exists>i \<in> fst ` set pairs. py_index i (length prios) = None))
       \<and> (\<forall>j. (\<forall>i \<in> fst ` set pairs. py_index i (length prios) \<noteq> Some j) \<longrightarrow>
                prios' ! j = prios ! j)"
  using assms
proof (induction pairs arbitrary: prios)
  case Nil
  then show ?case by simp
next
  case (Cons pair rest)
  obtain idx prior where pair: "pair = (idx, prior)" by (cases pair)
  show ?case
  proof (cases "py_index idx (length prios)")
    case None
    with Cons.prems pair show ?thesis by (simp add: list_set_def)
  next
    case (Some j)
    then have rec: "update_loop (prios[j := prior]) rest = (e, prios')"
      using Cons.prems pair by (simp add: list_set_def)
    note IH = Cons.IH [OF rec]
    have "prios' ! k = prios ! k"
      if "\<forall>i \<in> fst ` set (pair # rest). py_index i (length prios) \<noteq> Some k" for k
    proof -
      have "k \<noteq> j" using that Some pair by auto
      moreover have "prios' ! k = prios[j := prior] ! k" using IH that by simp
      ultimately show ?thesis by simp
    qed
    with IH Some pair show ?thesis by auto
  qed
qed

text \<open>
  The value of every slot after the loop: the priority paired with the last index that
  names the slot among the pairs before the first index out of range, and the old value
  when there is none.
\<close>

lemma update_loop_written:
  assumes "update_loop prios pairs = (e, prios')" and "j < length prios"
  shows "prios' ! j =
           (case find (\<lambda>(i, p). py_index i (length prios) = Some j)
                   (rev (takeWhile (\<lambda>(i, p). py_index i (length prios) \<noteq> None) pairs)) of
              None \<Rightarrow> prios ! j
            | Some (i, p) \<Rightarrow> p)"
  using assms
proof (induction pairs arbitrary: prios)
  case Nil
  then show ?case by simp
next
  case (Cons pair rest)
  obtain idx prior where pair: "pair = (idx, prior)" by (cases pair)
  let ?inside = "\<lambda>(i, p). py_index i (length prios) \<noteq> None"
  let ?names = "\<lambda>(i, p). py_index i (length prios) = Some j"
  show ?case
  proof (cases "py_index idx (length prios)")
    case None
    with Cons.prems pair show ?thesis by (simp add: list_set_def)
  next
    case (Some k)
    then have rec: "update_loop (prios[k := prior]) rest = (e, prios')"
      using Cons.prems(1) pair by (simp add: list_set_def)
    have "j < length (prios[k := prior])" using Cons.prems(2) by simp
    from Cons.IH [OF rec this]
    have IH: "prios' ! j =
           (case find ?names (rev (takeWhile ?inside rest)) of
              None \<Rightarrow> prios[k := prior] ! j
            | Some (i, p) \<Rightarrow> p)"
      by simp
    have k: "k < length prios" using Some by (rule py_index_less)
    have tw: "takeWhile ?inside (pair # rest) = pair # takeWhile ?inside rest"
      using Some pair by simp
    show ?thesis
    proof (cases "find ?names (rev (takeWhile ?inside rest))")
      case (Some found)
      with IH show ?thesis
        unfolding tw by (simp add: find_snoc)
    next
      case None
      with IH have "prios' ! j = prios[k := prior] ! j" by simp
      also have "\<dots> = (if k = j then prior else prios ! j)"
        using k Cons.prems(2) by (simp add: nth_list_update)
      finally show ?thesis
        unfolding tw using None \<open>py_index idx (length prios) = Some k\<close> pair
        by (auto simp: find_snoc)
    qed
  qed
qed

lemma fst_set_zip_subset: "fst ` set (zip xs ys) \<subseteq> set xs"
  by (auto dest: set_zip_leftD)

lemma update_priorities_spec:
  assumes "int (length (priorities b)) = capacity b"
    and "PriortizedReplayBuffer_update_priorities b indicies new_prior = (e, b')"
  shows "(e = Some IndexError \<longleftrightarrow>
            (\<exists>i \<in> fst ` set (zip indicies new_prior). i < - capacity b \<or> capacity b \<le> i))
       \<and> (e = None \<or> e = Some IndexError)
       \<and> b' = b\<lparr>priorities := priorities b'\<rparr>
       \<and> length (priorities b') = length (priorities b)
       \<and> (\<forall>j. (\<forall>i \<in> set indicies. py_index i (length (priorities b)) \<noteq> Some j) \<longrightarrow>
                priorities b' ! j = priorities b ! j)
       \<and> (\<forall>j < length (priorities b).
             priorities b' ! j =
               (case find (\<lambda>(i, p). (if i < 0 then capacity b + i else i) = int j)
                       (rev (takeWhile (\<lambda>(i, p). - capacity b \<le> i \<and> i < capacity b)
                               (zip indicies new_prior))) of
                  None \<Rightarrow> priorities b ! j
                | Some (i, p) \<Rightarrow> p))"
proof -
  from assms(2) have loop: "update_loop (priorities b) (zip indicies new_prior) = (e, priorities b')"
    and rest: "b' = b\<lparr>priorities := priorities b'\<rparr>"
    by (auto simp: PriortizedReplayBuffer_update_priorities_def split: prod.splits)
  note props = update_loop_props [OF loop]
  let ?n = "length (priorities b)"
  let ?inside = "\<lambda>(i, p). py_index i ?n \<noteq> None"
  let ?inside' = "\<lambda>(i :: int, p :: real). - capacity b \<le> i \<and> i < capacity b"
  have inside: "?inside = ?inside'"
    using assms(1) by (auto simp: py_index_None_iff fun_eq_iff)
  have "\<forall>j. (\<forall>i \<in> set indicies. py_index i ?n \<noteq> Some j) \<longrightarrow>
                priorities b' ! j = priorities b ! j"
    using props fst_set_zip_subset [of indicies new_prior] by blast
  moreover have "e = Some IndexError \<longleftrightarrow>
            (\<exists>i \<in> fst ` set (zip indicies new_prior). i < - capacity b \<or> capacity b \<le> i)"
    using props assms(1) by (simp add: py_index_None_iff)
  moreover note rest
  moreover have "length (priorities b') = length (priorities b)" "e = None \<or> e = Some IndexError"
    using props by blast+
  moreover have "\<forall>j < ?n.
             priorities b' ! j =
               (case find (\<lambda>(i, p). (if i < 0 then capacity b + i else i) = int j)
                       (rev (takeWhile ?inside' (zip indicies new_prior))) of
                  None \<Rightarrow> priorities b ! j
                | Some (i, p) \<Rightarrow> p)"
  proof (intro allI impI)
    fix j assume j: "j < ?n"
    let ?ws = "rev (takeWhile ?inside' (zip indicies new_prior))"
    have same_find: "find (\<lambda>(i, p). py_index i ?n = Some j) ?ws =
                     find (\<lambda>(i, p). (if i < 0 then capacity b + i else i) = int j) ?ws"
    proof (rule find_cong [OF refl])
      fix w assume "w \<in> set ?ws"
      then have "?inside' w" by (auto dest: set_takeWhileD)
      then show "(case w of (i, p) \<Rightarrow> py_index i ?n = Some j) =
                 (case w of (i, p) \<Rightarrow> (if i < 0 then capacity b + i else i) = int j)"
        using assms(1) by (cases w) (simp add: py_index_Some_iff)
    qed
    from update_loop_written [OF loop j] show "priorities b' ! j =
               (case find (\<lambda>(i, p). (if i < 0 then capacity b + i else i) = int j) ?ws of
                  None \<Rightarrow> priorities b ! j
                | Some (i, p) \<Rightarrow> p)"
      unfolding inside same_find .
  qed
  ultimately show ?thesis by blast
qed

text \<open>
  Claim C4, as stated, fails: on a buffer of capacity 2 the index \<open>-1\<close>, which lies outside
  \<open>[0, 2)\<close>, raises nothing. numpy counts it from the end and slot 1 is overwritten.
\<close>

theorem update_priorities_negative_index_accepted:
  "(case (PriortizedReplayBuffer_init 1000 2 (6 / 10) (4 / 10) (1 / 1000) (1 / 100000)
            :: error + nat prio_buffer) of
      Inl e \<Rightarrow> None
    | Inr b \<Rightarrow> Some (map_prod id priorities (PriortizedReplayBuffer_update_priorities b [- 1] [5])))
   = Some (None, [0, 5])"
  by (simp add: PriortizedReplayBuffer_init_def np_zeros_def
        PriortizedReplayBuffer_update_priorities_def list_set_def py_index_def numeral_2_eq_2)

text \<open>
  Claim C4, amended. On a buffer whose priority array has \<^verbatim>\<open>capacity\<close> slots (every
  constructed buffer), \<^verbatim>\<open>update_priorities\<close> of either priority buffer fails, with
  IndexError and no other error, exactly when one of the indices paired with a priority
  lies outside \<open>[-capacity, capacity)\<close>; an index in \<open>[-capacity, 0)\<close> is accepted and
  names the slot \<open>capacity + index\<close>. Whether the call fails or not, it changes nothing
  but the priority array and keeps the array's length. Afterwards every slot holds the
  priority paired with the last index naming it among the pairs before the first index
  out of range, and its old priority when no such index names it; in particular a slot
  that none of the given indices names keeps its priority.
\<close>

theorem update_priorities_index_range:
  "(int (length (priorities b)) = capacity b
    \<and> PriortizedReplayBuffer_update_priorities b indicies new_prior = (e, b') \<longrightarrow>
      (e = Some IndexError \<longleftrightarrow>
            (\<exists>i \<in> fst ` set (zip indicies new_prior). i < - capacity b \<or> capacity b \<le> i))
       \<and> (e = None \<or> e = Some IndexError)
       \<and> b' = b\<lparr>priorities := priorities b'\<rparr>
       \<and> length (priorities b') = length (priorities b)
       \<and> (\<forall>j. (\<forall>i \<in> set indicies. py_index i (length (priorities b)) \<noteq> Some j) \<longrightarrow>
                priorities b' ! j = priorities b ! j)
       \<and> (\<forall>j < length (priorities b).
             priorities b' ! j =
               (case find (\<lambda>(i, p). (if i < 0 then capacity b + i else i) = int j)
                       (rev (takeWhile (\<lambda>(i, p). - capacity b \<le> i \<and> i < capacity b)
                               (zip indicies new_prior))) of
                  None \<Rightarrow> priorities b ! j
                | Some (i, p) \<Rightarrow> p)))
   \<and> (int (length (priorities r)) = capacity r
    \<and> RainbowReplayBuffer_update_priorities r indicies new_prior = (e, r') \<longrightarrow>
      (e = Some IndexError \<longleftrightarrow>
            (\<exists>i \<in> fst ` set (zip indicies new_prior). i < - capacity r \<or> capacity r \<le> i))
       \<and> (e = None \<or> e = Some IndexError)
       \<and> r' = r\<lparr>priorities := priorities r'\<rparr>
       \<and> length (priorities r') = length (priorities r)
       \<and> (\<forall>j. (\<forall>i \<in> set indicies. py_index i (length (priorities r)) \<noteq> Some j) \<longrightarrow>
                priorities r' ! j = priorities r ! j)
       \<and> (\<forall>j < length (priorities r).
             priorities r' ! j =
               (case find (\<lambda>(i, p). (if i < 0 then capacity r + i else i) = int j)
                       (rev (takeWhile (\<lambda>(i, p). - capacity r \<le> i \<and> i < capacity r)
                               (zip indicies new_prior))) of
                  None \<Rightarrow> priorities r ! j
                | Some (i, p) \<Rightarrow> p)))"
proof (rule conjI; rule impI)
  assume "int (length (priorities b)) = capacity b
    \<and> PriortizedReplayBuffer_update_priorities b indicies new_prior = (e, b')"
  then have "int (length (priorities b)) = capacity b"
    and "PriortizedReplayBuffer_update_priorities b indicies new_prior = (e, b')"
    by blast+
  then show "(e = Some IndexError \<longleftrightarrow>
            (\<exists>i \<in> fst ` set (zip indicies new_prior). i < - capacity b \<or> capacity b \<le> i))
       \<and> (e = None \<or> e = Some IndexError)
       \<and> b' = b\<lparr>priorities := priorities b'\<rparr>
       \<and> length (priorities b') = length (priorities b)
       \<and> (\<forall>j. (\<forall>i \<in> set indicies. py_index i (length (priorities b)) \<noteq> Some j) \<longrightarrow>
                priorities b' ! j = priorities b ! j)
       \<and> (\<forall>j < length (priorities b).
             priorities b' ! j =
               (case find (\<lambda>(i, p). (if i < 0 then capacity b + i else i) = int j)
                       (rev (takeWhile (\<lambda>(i, p). - capacity b \<le> i \<and> i < capacity b)
                               (zip indicies new_prior))) of
                  None \<Rightarrow> priorities b ! j
                | Some (i, p) \<Rightarrow> p))"
    by (rule update_priorities_spec)
next
  assume "int (length (priorities r)) = capacity r
    \<and> RainbowReplayBuffer_update_priorities r indicies new_prior = (e, r')"
  then have "int (length (priorities r)) = capacity r"
    and "PriortizedReplayBuffer_update_priorities r indicies new_prior = (e, r')"
    by (simp_all add: RainbowReplayBuffer_update_priorities_def)
  then show "(e = Some IndexError \<longleftrightarrow>
            (\<exists>i \<in> fst ` set (zip indicies new_prior). i < - capacity r \<or> capacity r \<le> i))
       \<and> (e = None \<or> e = Some IndexError)
       \<and> r' = r\<lparr>priorities := priorities r'\<rparr>
       \<and> length (priorities r') = length (priorities r)
       \<and> (\<forall>j. (\<forall>i \<in> set indicies. py_index i (length (priorities r)) \<noteq> Some j) \<longrightarrow>
                priorities r' ! j = priorities r ! j)
       \<and> (\<forall>j < length (priorities r).
             priorities r' ! j =
               (case find (\<lambda>(i, p). (if i < 0 then capacity r + i else i) = int j)
                       (rev (takeWhile (\<lambda>(i, p). - capacity r \<le> i \<and> i < capacity r)
                               (zip indicies new_prior))) of
                  None \<Rightarrow> priorities r ! j
                | Some (i, p) \<Rightarrow> p))"
    by (rule update_priorities_spec)
qed

text \<open>
  The theorem at fresh buffers of capacity 2 and the call
  \<^verbatim>\<open>update_priorities([-1, 7, 0], [5, 6, 7])\<close>: the index \<open>-1\<close> writes 5 into slot 1,
  the index 7 raises IndexError, the pair \<open>(0, 7)\<close> is never reached and slot 0 keeps
  its priority.
\<close>

theorem update_priorities_index_range_witness:
  "PriortizedReplayBuffer_update_priorities
      \<lparr>capacity = 2, alpha = 6 / 10, beta = 4 / 10, beta_increment = 1 / 1000, epsilon = 1 / 100000,
       memory = [] :: nat transition list, priorities = [0, 0], pos = 0\<rparr> [- 1, 7, 0] [5, 6, 7]
     = (Some IndexError,
        \<lparr>capacity = 2, alpha = 6 / 10, beta = 4 / 10, beta_increment = 1 / 1000, epsilon = 1 / 100000,
         memory = [], priorities = [0, 5], pos = 0\<rparr>)
   \<and> RainbowReplayBuffer_update_priorities
      \<lparr>capacity = 2, alpha = 6 / 10, beta = 4 / 10, beta_increment = 1 / 1000, epsilon = 1 / 100000,
       memory = [] :: nat transition list, priorities = [0, 0], pos = 0,
       nstep = 3, nstep_buffer = []\<rparr> [- 1, 7, 0] [5, 6, 7]
     = (Some IndexError,
        \<lparr>capacity = 2, alpha = 6 / 10, beta = 4 / 10, beta_increment = 1 / 1000, epsilon = 1 / 100000,
         memory = [], priorities = [0, 5], pos = 0, nstep = 3, nstep_buffer = []\<rparr>)
   \<and> [0, 5 :: real] ! 1 = 5 \<and> [0, 5 :: real] ! 0 = [0, 0] ! 0"
proof -
  let ?b = "\<lparr>capacity = 2, alpha = 6 / 10, beta = 4 / 10, beta_increment = 1 / 1000,
             epsilon = 1 / 100000, memory = [] :: nat transition list, priorities = [0, 0], pos = 0\<rparr>"
  let ?b' = "\<lparr>capacity = 2, alpha = 6 / 10, beta = 4 / 10, beta_increment = 1 / 1000,
             epsilon = 1 / 100000, memory = [] :: nat transition list, priorities = [0, 5], pos = 0\<rparr>"
  let ?r = "\<lparr>capacity = 2, alpha = 6 / 10, beta = 4 / 10, beta_increment = 1 / 1000,
             epsilon = 1 / 100000, memory = [] :: nat transition list, priorities = [0, 0], pos = 0,
             nstep = 3, nstep_buffer = []\<rparr>"
  let ?r' = "\<lparr>capacity = 2, alpha = 6 / 10, beta = 4 / 10, beta_increment = 1 / 1000,
             epsilon = 1 / 100000, memory = [] :: nat transition list, priorities = [0, 5], pos = 0,
             nstep = 3, nstep_buffer = []\<rparr>"
  have h1: "int (length (priorities ?b)) = capacity ?b
            \<and> PriortizedReplayBuffer_update_priorities ?b [- 1, 7, 0] [5, 6, 7] =
                (Some IndexError, ?b')"
    by (simp add: PriortizedReplayBuffer_update_priorities_def list_set_def py_index_def)
  have h2: "int (length (priorities ?r)) = capacity ?r
            \<and> RainbowReplayBuffer_update_priorities ?r [- 1, 7, 0] [5, 6, 7] =
                (Some IndexError, ?r')"
    by (simp add: RainbowReplayBuffer_update_priorities_def
          PriortizedReplayBuffer_update_priorities_def list_set_def py_index_def)
  note inst = update_priorities_index_range
    [where b = ?b and b' = ?b' and r = ?r and r' = ?r' and e = "Some IndexError"
       and indicies = "[- 1, 7, 0]" and new_prior = "[5, 6, 7]"]
  note written = inst [THEN conjunct1, THEN mp, OF h1, THEN conjunct2, THEN conjunct2,
    THEN conjunct2, THEN conjunct2, THEN conjunct2]
  note written_r = inst [THEN conjunct2, THEN mp, OF h2, THEN conjunct2, THEN conjunct2,
    THEN conjunct2, THEN conjunct2, THEN conjunct2]
  from written [rule_format, of 1] written [rule_format, of 0] written_r [rule_format, of 1]
  have "[0, 5 :: real] ! 1 = 5 \<and> [0, 5 :: real] ! 0 = [0, 0] ! 0" by simp
  with h1 h2 show ?thesis by simp
qed

section \<open>Pushing into the priority store\<close>

lemma array_max_eq:
  assumes "xs \<noteq> []"
  shows "array_max xs = Some (Max (set xs))"
proof -
  obtain x rest where xs: "xs = x # rest" using assms by (cases xs) auto
  show ?thesis
    unfolding xs array_max_def using Max.set_eq_fold [of x rest] by simp
qed


text \<open>
  The maximum of the whole priority array is the maximum over the stored transitions as
  long as no priority is negative and the slots beyond the stored transitions still hold
  their initial zero.
\<close>

lemma array_max_is_stored_max:
  assumes "memory b \<noteq> []" and "length (memory b) \<le> length (priorities b)"
    and "\<And>p. p \<in> set (priorities b) \<Longrightarrow> 0 \<le> p"
    and "\<And>p. p \<in> set (drop (length (memory b)) (priorities b)) \<Longrightarrow> p = 0"
  shows "Max (set (priorities b)) = Max (set (take (length (memory b)) (priorities b)))"
proof -
  let ?stored = "take (length (memory b)) (priorities b)"
  let ?unused = "drop (length (memory b)) (priorities b)"
  have stored_nonempty: "?stored \<noteq> []" using assms(1,2) by auto
  have whole: "set (priorities b) = set ?stored \<union> set ?unused"
    by (metis append_take_drop_id set_append)
  have "Max (set ?stored) \<in> set ?stored" using stored_nonempty by (simp add: Max_in)
  then have "0 \<le> Max (set ?stored)" using assms(3) by (meson in_set_takeD)
  show ?thesis
  proof (rule Max_eqI)
    show "finite (set (priorities b))" by simp
    show "Max (set ?stored) \<in> set (priorities b)"
      using \<open>Max (set ?stored) \<in> set ?stored\<close> by (meson in_set_takeD)
    fix y assume "y \<in> set (priorities b)"
    then consider "y \<in> set ?stored" | "y \<in> set ?unused" using whole by auto
    then show "y \<le> Max (set ?stored)"
    proof cases
      case 1
      then show ?thesis by simp
    next
      case 2
      then have "y = 0" by (rule assms(4))
      with \<open>0 \<le> Max (set ?stored)\<close> show ?thesis by simp
    qed
  qed
qed

lemma store_push_slot:
  assumes "store_ok b" and "store_push b data = Inr b'"
  shows "nat (pos b) < length (memory b') \<and> memory b' ! nat (pos b) = data"
proof (cases "int (length (memory b)) < capacity b")
  case True
  with assms show ?thesis
    by (auto simp: store_ok_def store_push_def list_set_def py_index_def py_mod_def
             split: option.splits sum.splits if_splits)
next
  case False
  with assms show ?thesis
    by (auto simp: store_ok_def store_push_def list_set_def py_index_def py_mod_def
             split: option.splits sum.splits if_splits)
qed




section \<open>What the n-step buffer stores\<close>

lemma is_done_simp [simp]: "is_done (s, act, r, n_s, d) = d"
  by (simp add: is_done_def)

lemma next_state_of_simp [simp]: "next_state_of (s, act, r, n_s, d) = n_s"
  by (simp add: next_state_of_def)

text \<open>
  The loop of \<^verbatim>\<open>_get_nstep_info\<close> runs from the newest entry but one back to the
  oldest, so the last entry to overwrite \<^verbatim>\<open>(next_state, done)\<close> is the earliest
  terminating one in window order.
\<close>

lemma nstep_fold_flags:
  assumes "nstep_fold a (reward, next_state, flag) older = (n_reward, n_next_state, n_done)"
  shows "(n_next_state, n_done) =
           (case find is_done (rev older) of
              None \<Rightarrow> (next_state, flag)
            | Some t \<Rightarrow> (next_state_of t, True))"
  using assms
proof (induction older arbitrary: reward next_state flag)
  case Nil
  then show ?case by simp
next
  case (Cons t older)
  obtain s act r n_s d where t: "t = (s, act, r, n_s, d)" by (cases t)
  from Cons.prems have rec:
    "nstep_fold a (r + a * reward * (1 - float_of_bool d),
                   if d then n_s else next_state, if d then d else flag) older =
       (n_reward, n_next_state, n_done)"
    by (simp add: t)
  from Cons.IH [OF rec] show ?case
    by (cases "find is_done (rev older)")
       (auto simp: t find_snoc)
qed

lemma get_nstep_info_flags:
  assumes "get_nstep_info b = Inr (n_reward, n_next_state, n_done)"
  shows "(n_next_state, n_done) =
           (case find is_done (nstep_buffer b) of
              None \<Rightarrow> (next_state_of (last (nstep_buffer b)), False)
            | Some t \<Rightarrow> (next_state_of t, True))"
proof -
  from assms have nonempty: "nstep_buffer b \<noteq> []"
    by (auto simp: get_nstep_info_def split: if_splits)
  obtain s act reward next_state flag where
    newest: "last (nstep_buffer b) = (s, act, reward, next_state, flag)"
    by (cases "last (nstep_buffer b)")
  from assms nonempty newest have fold:
    "nstep_fold (alpha b) (reward, next_state, flag) (rev (butlast (nstep_buffer b))) =
       (n_reward, n_next_state, n_done)"
    by (simp add: get_nstep_info_def)
  have split: "nstep_buffer b = butlast (nstep_buffer b) @ [last (nstep_buffer b)]"
    using nonempty by simp
  have "find is_done (nstep_buffer b) =
          (case find is_done (butlast (nstep_buffer b)) of
             Some y \<Rightarrow> Some y
           | None \<Rightarrow> if flag then Some (last (nstep_buffer b)) else None)"
    using find_snoc [of is_done "butlast (nstep_buffer b)" "last (nstep_buffer b)"] split newest
    by simp
  with nstep_fold_flags [OF fold] newest show ?thesis
    by (cases "find is_done (butlast (nstep_buffer b))") auto
qed

text \<open>
  What a push that finds the window full writes into a well-formed store: the state and
  the action of the oldest window entry, the folded reward, the next state of the
  earliest terminating entry of the window (that of the pushed transition when none
  terminates), and as done flag the flag of the pushed transition, whatever the flags of
  the older entries are.
\<close>

lemma RainbowReplayBuffer_push_stores:
  assumes pushed: "RainbowReplayBuffer_push r n (state, action, reward, next_state, flag) = Inr r'"
    and ok: "store_ok r"
    and full: "\<not> int (length (deque_append (nat (nstep r)) (nstep_buffer r)
                                (state, action, reward, next_state, flag))) < nstep r"
  shows "\<exists>n_reward oldest.
           oldest = hd (deque_append (nat (nstep r)) (nstep_buffer r)
                          (state, action, reward, next_state, flag))
         \<and> memory r' ! nat (pos r) =
             (fst oldest, fst (snd oldest), n_reward,
              (case find is_done (deque_append (nat (nstep r)) (nstep_buffer r)
                                    (state, action, reward, next_state, flag)) of
                 None \<Rightarrow> next_state
               | Some t \<Rightarrow> next_state_of t),
              flag)"
proof -
  define w where "w = deque_append (nat (nstep r)) (nstep_buffer r)
                        (state, action, reward, next_state, flag)"
  define r1 where "r1 = r\<lparr>nstep_buffer := w\<rparr>"
  have r1_ok: "store_ok r1" using ok by (simp add: r1_def store_ok_def)
  have body: "(case w of
                 [] \<Rightarrow> Inl IndexError
               | (n_state, n_action, rest) # later \<Rightarrow>
                   (case get_nstep_info r1 of
                      Inl e \<Rightarrow> Inl e
                    | Inr (n_reward, n_next_state, n_done) \<Rightarrow>
                        store_push r1 (n_state, n_action, n_reward, n_next_state, flag))) = Inr r'"
    using pushed full unfolding r1_def w_def
    by (simp add: RainbowReplayBuffer_push_def Let_def)
  then obtain oldest later where w: "w = oldest # later" by (cases w) auto
  obtain n_state n_action rest where oldest: "oldest = (n_state, n_action, rest)"
    by (cases oldest)
  from body w oldest obtain info where info': "get_nstep_info r1 = Inr info"
    by (cases "get_nstep_info r1") auto
  obtain n_reward n_next_state n_done where "info = (n_reward, n_next_state, n_done)"
    by (cases info)
  with info' have info: "get_nstep_info r1 = Inr (n_reward, n_next_state, n_done)" by simp
  from body w oldest info
  have st: "store_push r1 (n_state, n_action, n_reward, n_next_state, flag) = Inr r'" by simp
  have newest: "last w = (state, action, reward, next_state, flag)"
  proof -
    let ?ys = "nstep_buffer r @ [(state, action, reward, next_state, flag)]"
    have "w = drop (length ?ys - nat (nstep r)) ?ys" by (simp add: w_def deque_append_def)
    moreover have "w \<noteq> []" using w by simp
    ultimately have "last w = last ?ys" by (metis last_drop drop_eq_Nil not_le)
    then show ?thesis by simp
  qed
  from get_nstep_info_flags [OF info] newest
  have ns: "n_next_state = (case find is_done w of None \<Rightarrow> next_state | Some t \<Rightarrow> next_state_of t)"
    by (cases "find is_done w") (auto simp: r1_def)
  from store_push_slot [OF r1_ok st]
  have "memory r' ! nat (pos r) = (n_state, n_action, n_reward, n_next_state, flag)"
    by (simp add: r1_def)
  with ns w oldest show ?thesis unfolding w_def [symmetric] by simp
qed

subsection \<open>The fold on concrete runs\<close>

text \<open>
  Claim C1. The scenario of the claim on the code: \<^verbatim>\<open>RainbowReplayBuffer(4, 3)\<close>, whose
  constructor has no discount parameter, then three pushes with rewards 1, 1, 1 and done
  flags False, False, True. The store receives exactly one transition, with the state and
  action of the first push, the next state of the third and done = True; its reward is
  \<open>1 + 0.6 * (1 + 0.6 * 1) = 1.96\<close>, since the fold multiplies by \<^verbatim>\<open>self.alpha\<close>, the
  priority exponent (default 0.6), and not by a discount of 0.9.
\<close>

theorem nstep_scenario_default_alpha:
  "map_sum id memory
     (RainbowReplayBuffer_run (RainbowReplayBuffer_default 1000 4 3)
        [(3, (10::nat, 0, 1, 11, False)), (3, (20, 1, 1, 21, False)), (3, (30, 2, 1, 31, True))])
   = Inr [(10, 0, 196 / 100, 31, True)]"
  by (simp add: run_simps)

text \<open>
  The reward 2.71 of the scenario comes out only when the priority exponent itself is set
  to 0.9.
\<close>

lemma nstep_scenario_alpha_as_discount:
  "map_sum id memory
     (RainbowReplayBuffer_run
        (RainbowReplayBuffer_init 1000 4 3 (9 / 10) (4 / 10) (1 / 1000) (1 / 100000))
        [(3, (10::nat, 0, 1, 11, False)), (3, (20, 1, 1, 21, False)), (3, (30, 2, 1, 31, True))])
   = Inr [(10, 0, 271 / 100, 31, True)]"
  by (simp add: run_simps)

text \<open>
  Claim C2. A window of two transitions whose older entry terminates and whose newer one
  does not: \<^verbatim>\<open>RainbowReplayBuffer(4, 2)\<close>, then a push with done = True and a push
  with done = False. The stored transition has the state, the action and the next state
  of the older, terminating entry, but done = False: line 123 stores the \<^verbatim>\<open>done\<close>
  argument of the push and drops the \<^verbatim>\<open>n_done\<close> that \<^verbatim>\<open>_get_nstep_info\<close>
  returned. (State, action and next state are as the claim says for every window, see
  \<open>RainbowReplayBuffer_push_stores\<close>.)
\<close>

theorem nstep_early_done_dropped:
  "map_sum id memory
     (RainbowReplayBuffer_run (RainbowReplayBuffer_default 1000 4 2)
        [(2, (10::nat, 0, 1, 11, True)), (2, (20, 1, 1, 21, False))])
   = Inr [(10, 0, 1, 11, False)]"
  by (simp add: run_simps)

section \<open>The length after a sequence of pushes\<close>

lemma ReplayBuffer_push_ok:
  assumes "buffer_ok b"
  shows "\<exists>b'. ReplayBuffer_push b item = Inr b' \<and> buffer_ok b'
             \<and> replay_buffer.capacity b' = replay_buffer.capacity b
             \<and> length (buffer b') = min (length (buffer b) + 1) (nat (replay_buffer.capacity b))"
proof (cases "int (length (buffer b)) < replay_buffer.capacity b")
  case True
  with assms show ?thesis
    by (auto simp: buffer_ok_def ReplayBuffer_push_def list_set_def py_index_def py_mod_def Let_def)
next
  case False
  with assms show ?thesis
    by (auto simp: buffer_ok_def ReplayBuffer_push_def list_set_def py_index_def py_mod_def Let_def)
qed

lemma ReplayBuffer_pushes_ok:
  assumes "buffer_ok b"
  shows "\<exists>b'. ReplayBuffer_pushes b items = Inr b' \<and> buffer_ok b'
             \<and> replay_buffer.capacity b' = replay_buffer.capacity b
             \<and> length (buffer b') = min (length (buffer b) + length items) (nat (replay_buffer.capacity b))"
  using assms
proof (induction items arbitrary: b)
  case Nil
  then show ?case by (auto simp: buffer_ok_def min_def)
next
  case (Cons item items)
  from ReplayBuffer_push_ok [OF Cons.prems, of item] obtain b1 where
    b1: "ReplayBuffer_push b item = Inr b1" "buffer_ok b1"
        "replay_buffer.capacity b1 = replay_buffer.capacity b"
        "length (buffer b1) = min (length (buffer b) + 1) (nat (replay_buffer.capacity b))"
    by blast
  from Cons.IH [OF b1(2)] obtain b' where
    b': "ReplayBuffer_pushes b1 items = Inr b'" "buffer_ok b'"
        "replay_buffer.capacity b' = replay_buffer.capacity b1"
        "length (buffer b') = min (length (buffer b1) + length items) (nat (replay_buffer.capacity b1))"
    by blast
  have "length (buffer b') =
          min (length (buffer b) + length (item # items)) (nat (replay_buffer.capacity b))"
    using b1(3,4) b'(4) by (simp add: min_def)
  with b1 b' show ?case by (intro exI [of _ b']) simp
qed

lemma store_push_ok:
  assumes "store_ok b"
  shows "\<exists>mem' prios' p. store_push b data = Inr (b\<lparr>memory := mem', priorities := prios', pos := p\<rparr>)
             \<and> store_ok (b\<lparr>memory := mem', priorities := prios', pos := p\<rparr>)
             \<and> length mem' = min (length (memory b) + 1) (nat (capacity b))"
proof -
  define max_prior where "max_prior = (if memory b = [] then 1 else Max (set (priorities b)))"
  define mem' where "mem' = (if int (length (memory b)) < capacity b then memory b @ [data]
                             else (memory b)[nat (pos b) := data])"
  define prios' where "prios' = (priorities b)[nat (pos b) := max_prior]"
  define p where "p = (pos b + 1) mod capacity b"
  have nonempty: "priorities b \<noteq> []" using assms by (auto simp: store_ok_def)
  have pushed: "store_push b data = Inr (b\<lparr>memory := mem', priorities := prios', pos := p\<rparr>)"
    using assms array_max_eq [OF nonempty]
    by (cases "int (length (memory b)) < capacity b")
       (auto simp: store_push_def list_set_def py_index_def py_mod_def store_ok_def Let_def
          max_prior_def mem'_def prios'_def p_def)
  have len: "length mem' = min (length (memory b) + 1) (nat (capacity b))"
    using assms by (auto simp: mem'_def store_ok_def)
  have "0 \<le> p" "p < capacity b"
    using assms by (simp_all add: p_def store_ok_def)
  moreover have "int (length mem') < capacity b \<longrightarrow> p = int (length mem')"
    using assms by (auto simp: mem'_def p_def store_ok_def)
  moreover have "int (length mem') \<le> capacity b"
    using assms by (auto simp: mem'_def store_ok_def)
  moreover have "int (length prios') = capacity b"
    using assms by (simp add: prios'_def store_ok_def)
  ultimately have "store_ok (b\<lparr>memory := mem', priorities := prios', pos := p\<rparr>)"
    using assms by (simp add: store_ok_def)
  with pushed len show ?thesis by blast
qed


lemma PriortizedReplayBuffer_pushes_ok:
  assumes "store_ok b"
  shows "\<exists>b'. PriortizedReplayBuffer_pushes b items = Inr b' \<and> store_ok b'
             \<and> capacity b' = capacity b
             \<and> length (memory b') = min (length (memory b) + length items) (nat (capacity b))"
  using assms
proof (induction items arbitrary: b)
  case Nil
  then show ?case by (auto simp: store_ok_def min_def)
next
  case (Cons item items)
  from store_push_ok [OF Cons.prems, of item] obtain b1 where
    b1: "PriortizedReplayBuffer_push b item = Inr b1" "store_ok b1"
        "capacity b1 = capacity b"
        "length (memory b1) = min (length (memory b) + 1) (nat (capacity b))"
    unfolding PriortizedReplayBuffer_push_def by fastforce
  from Cons.IH [OF b1(2)] obtain b' where
    b': "PriortizedReplayBuffer_pushes b1 items = Inr b'" "store_ok b'"
        "capacity b' = capacity b1"
        "length (memory b') = min (length (memory b1) + length items) (nat (capacity b1))"
    by blast
  have "length (memory b') =
          min (length (memory b) + length (item # items)) (nat (capacity b))"
    using b1(3,4) b'(4) by (simp add: min_def)
  with b1 b' show ?case by (intro exI [of _ b']) simp
qed

lemma get_nstep_info_ok:
  assumes "nstep_buffer r \<noteq> []"
  shows "\<exists>n_reward n_next_state n_done. get_nstep_info r = Inr (n_reward, n_next_state, n_done)"
proof -
  obtain s act reward next_state flag where
    newest: "last (nstep_buffer r) = (s, act, reward, next_state, flag)"
    by (cases "last (nstep_buffer r)")
  obtain n_reward n_next_state n_done where
    "nstep_fold (alpha r) (reward, next_state, flag) (rev (butlast (nstep_buffer r))) =
       (n_reward, n_next_state, n_done)"
    by (cases "nstep_fold (alpha r) (reward, next_state, flag) (rev (butlast (nstep_buffer r)))")
  with assms newest show ?thesis by (simp add: get_nstep_info_def)
qed

lemma RainbowReplayBuffer_push_ok:
  assumes "store_ok r" and "0 < nstep r" and "length (nstep_buffer r) \<le> nat (nstep r)"
  shows "\<exists>r'. RainbowReplayBuffer_push r n item = Inr r' \<and> store_ok r'
           \<and> capacity r' = capacity r \<and> nstep r' = nstep r
           \<and> length (nstep_buffer r') = min (length (nstep_buffer r) + 1) (nat (nstep r))
           \<and> length (memory r') =
               (if length (nstep_buffer r) + 1 < nat (nstep r) then length (memory r)
                else min (length (memory r) + 1) (nat (capacity r)))"
proof -
  obtain state action reward next_state flag where item: "item = (state, action, reward, next_state, flag)"
    by (cases item)
  define w where "w = deque_append (nat (nstep r)) (nstep_buffer r) item"
  define r1 where "r1 = r\<lparr>nstep_buffer := w\<rparr>"
  have w_len: "length w = min (length (nstep_buffer r) + 1) (nat (nstep r))"
    using assms(3) by (auto simp: w_def deque_append_def Let_def)
  have w_nonempty: "w \<noteq> []" using w_len assms(2) by (cases w) auto
  have r1_ok: "store_ok r1" using assms(1) by (simp add: r1_def store_ok_def)
  show ?thesis
  proof (cases "length (nstep_buffer r) + 1 < nat (nstep r)")
    case True
    then have "int (length w) < nstep r" using w_len by linarith
    then have "RainbowReplayBuffer_push r n item = Inr r1"
      by (simp add: RainbowReplayBuffer_push_def item w_def [symmetric, unfolded item] r1_def Let_def)
    with True r1_ok w_len show ?thesis by (simp add: r1_def)
  next
    case False
    then have full: "\<not> int (length w) < nstep r" using w_len assms(2,3) by auto
    obtain n_state n_action rest later where hd: "w = (n_state, n_action, rest) # later"
      using w_nonempty by (cases w) auto
    obtain n_reward n_next_state n_done where
      info: "get_nstep_info r1 = Inr (n_reward, n_next_state, n_done)"
      using get_nstep_info_ok [of r1] w_nonempty by (auto simp: r1_def)
    have push_eq: "RainbowReplayBuffer_push r n item =
                   store_push r1 (n_state, n_action, n_reward, n_next_state, flag)"
      using full hd info [unfolded r1_def]
      by (simp add: RainbowReplayBuffer_push_def item w_def [symmetric, unfolded item] r1_def Let_def)
    from store_push_ok [OF r1_ok] obtain mem' prios' p where
      st: "store_push r1 (n_state, n_action, n_reward, n_next_state, flag) =
             Inr (r1\<lparr>memory := mem', priorities := prios', pos := p\<rparr>)"
          "store_ok (r1\<lparr>memory := mem', priorities := prios', pos := p\<rparr>)"
          "length mem' = min (length (memory r1) + 1) (nat (capacity r1))"
      by blast
    show ?thesis
      using False push_eq st w_len by (simp add: r1_def)
  qed
qed

lemma nstep_count_step:
  fixes w m N M C :: nat
  assumes "w \<le> N" and "0 < N"
  shows "min ((if w + 1 < N then M else min (M + 1) C) + (m - (N - 1 - min (w + 1) N))) C
         = min (M + (Suc m - (N - 1 - w))) C"
proof (cases "w + 1 < N")
  case True
  then have "min (w + 1) N = w + 1" by simp
  moreover from True have "m - (N - 1 - (w + 1)) = Suc m - (N - 1 - w)" by arith
  ultimately show ?thesis using True by simp
next
  case False
  then have "min (w + 1) N = N" "N - 1 - w = 0" using assms by simp_all
  then show ?thesis using False by (simp add: min_def)
qed

lemma RainbowReplayBuffer_pushes_ok:
  assumes "store_ok r" and "0 < nstep r" and "length (nstep_buffer r) \<le> nat (nstep r)"
  shows "\<exists>r'. RainbowReplayBuffer_pushes r items = Inr r' \<and> store_ok r'
           \<and> capacity r' = capacity r \<and> nstep r' = nstep r
           \<and> length (nstep_buffer r') = min (length (nstep_buffer r) + length items) (nat (nstep r))
           \<and> length (memory r') =
               min (length (memory r)
                    + (length items - (nat (nstep r) - 1 - length (nstep_buffer r))))
                   (nat (capacity r))"
  using assms
proof (induction items arbitrary: r)
  case Nil
  then show ?case by (auto simp: store_ok_def min_def)
next
  case (Cons call items)
  obtain n item where call: "call = (n, item)" by (cases call)
  from RainbowReplayBuffer_push_ok [OF Cons.prems, of n item] obtain r1 where
    r1: "RainbowReplayBuffer_push r n item = Inr r1" "store_ok r1"
        "capacity r1 = capacity r" "nstep r1 = nstep r"
        "length (nstep_buffer r1) = min (length (nstep_buffer r) + 1) (nat (nstep r))"
        "length (memory r1) =
           (if length (nstep_buffer r) + 1 < nat (nstep r) then length (memory r)
            else min (length (memory r) + 1) (nat (capacity r)))"
    by blast
  have "0 < nstep r1" "length (nstep_buffer r1) \<le> nat (nstep r1)"
    using r1(4,5) Cons.prems(2) by simp_all
  from Cons.IH [OF r1(2) this] obtain r' where
    r': "RainbowReplayBuffer_pushes r1 items = Inr r'" "store_ok r'"
        "capacity r' = capacity r1" "nstep r' = nstep r1"
        "length (nstep_buffer r') = min (length (nstep_buffer r1) + length items) (nat (nstep r1))"
        "length (memory r') =
           min (length (memory r1)
                + (length items - (nat (nstep r1) - 1 - length (nstep_buffer r1))))
               (nat (capacity r1))"
    by blast
  have window: "length (nstep_buffer r') =
                  min (length (nstep_buffer r) + length (call # items)) (nat (nstep r))"
    using r1(4,5) r'(5) by (simp add: min_def)
  have "0 < nat (nstep r)" using Cons.prems(2) by simp
  from nstep_count_step [OF Cons.prems(3) this]
  have store: "length (memory r') =
                 min (length (memory r)
                      + (length (call # items) - (nat (nstep r) - 1 - length (nstep_buffer r))))
                     (nat (capacity r))"
    unfolding r'(6) r1(3,4,5,6) by simp
  have "RainbowReplayBuffer_pushes r (call # items) = Inr r'"
    using r1(1) r'(1) by (simp add: call)
  moreover have "capacity r' = capacity r" "nstep r' = nstep r"
    using r1(3,4) r'(3,4) by simp_all
  ultimately show ?case using r'(2) window store by blast
qed

lemma ReplayBuffer_init_ok: "0 < cap \<Longrightarrow> buffer_ok (ReplayBuffer_init cap)"
  by (simp add: buffer_ok_def ReplayBuffer_init_def)

lemma PriortizedReplayBuffer_init_ok:
  assumes "PriortizedReplayBuffer_init avail cap a b b_inc eps = Inr pb" and "0 < cap"
  shows "store_ok pb \<and> capacity pb = cap \<and> memory pb = []"
  using assms
  by (auto simp: PriortizedReplayBuffer_init_def np_zeros_def store_ok_def split: if_splits)

lemma RainbowReplayBuffer_init_ok:
  assumes "RainbowReplayBuffer_init avail cap n a b b_inc eps = Inr rb" and "0 < cap"
  shows "store_ok rb \<and> capacity rb = cap \<and> memory rb = [] \<and> nstep rb = n
         \<and> nstep_buffer rb = []"
  using assms
  by (auto simp: RainbowReplayBuffer_init_def np_zeros_def deque_new_def store_ok_def
           split: if_splits)

text \<open>
  Claim C7, as stated, fails for the n-step buffer: after one push into
  \<^verbatim>\<open>RainbowReplayBuffer(4, 2)\<close> the length is 0, while \<open>min(1, 4) = 1\<close>. The first
  \<^verbatim>\<open>nstep - 1\<close> pushes only fill the window.
\<close>

theorem nstep_len_lags_behind_pushes:
  "map_sum id RainbowReplayBuffer_len
     (RainbowReplayBuffer_run (RainbowReplayBuffer_default 1000 4 2)
        [(2, (10::nat, 0, 1, 11, False))])
   = Inr 0
   \<and> min (length [(2::int, (10::nat, 0::int, 1::real, 11::nat, False))]) (nat 4) = 1"
  by (simp add: run_simps RainbowReplayBuffer_len_def)

text \<open>
  Claim C7, amended. For a positive capacity, every sequence of pushes into a fresh
  \<^verbatim>\<open>ReplayBuffer\<close> or \<^verbatim>\<open>PriortizedReplayBuffer\<close> succeeds and leaves a length of
  \<open>min(number of pushes, capacity)\<close>. For a fresh \<^verbatim>\<open>RainbowReplayBuffer\<close> with a
  positive \<^verbatim>\<open>nstep\<close> every sequence of pushes succeeds as well, and the length is
  \<open>min(number of pushes - (nstep - 1), capacity)\<close>, the difference being 0 while the
  window fills. A fresh priority buffer is one its constructor has returned.
\<close>

theorem len_after_pushes:
  assumes "0 < cap"
  shows "map_sum id ReplayBuffer_len (ReplayBuffer_pushes (ReplayBuffer_init cap) items) =
           Inr (min (length items) (nat cap))
       \<and> (PriortizedReplayBuffer_init avail cap a b b_inc eps = Inr (pb :: 'p prio_buffer) \<longrightarrow>
            map_sum id PriortizedReplayBuffer_len
              (PriortizedReplayBuffer_run (PriortizedReplayBuffer_init avail cap a b b_inc eps)
                 (items' :: 'p transition list)) =
             Inr (min (length items') (nat cap)))
       \<and> (0 < n \<and> RainbowReplayBuffer_init avail cap n a b b_inc eps = Inr (rb :: 'r rainbow_buffer) \<longrightarrow>
            map_sum id RainbowReplayBuffer_len
              (RainbowReplayBuffer_run (RainbowReplayBuffer_init avail cap n a b b_inc eps)
                 (calls :: (int \<times> 'r transition) list)) =
             Inr (min (length calls - (nat n - 1)) (nat cap)))"
proof (intro conjI impI)
  from ReplayBuffer_pushes_ok [OF ReplayBuffer_init_ok [OF assms], of items]
  show "map_sum id ReplayBuffer_len (ReplayBuffer_pushes (ReplayBuffer_init cap) items) =
           Inr (min (length items) (nat cap))"
    by (auto simp: ReplayBuffer_len_def ReplayBuffer_init_def)
next
  assume init: "PriortizedReplayBuffer_init avail cap a b b_inc eps = Inr pb"
  note pb = PriortizedReplayBuffer_init_ok [OF init assms]
  from pb have "store_ok pb" by blast
  from PriortizedReplayBuffer_pushes_ok [OF this, of items'] init pb
  show "map_sum id PriortizedReplayBuffer_len
              (PriortizedReplayBuffer_run (PriortizedReplayBuffer_init avail cap a b b_inc eps)
                 items') =
             Inr (min (length items') (nat cap))"
    by (auto simp: PriortizedReplayBuffer_len_def PriortizedReplayBuffer_run_def)
next
  assume "0 < n \<and> RainbowReplayBuffer_init avail cap n a b b_inc eps = Inr rb"
  then have n: "0 < n" and init: "RainbowReplayBuffer_init avail cap n a b b_inc eps = Inr rb"
    by blast+
  note rb = RainbowReplayBuffer_init_ok [OF init assms]
  have "store_ok rb" "0 < nstep rb" "length (nstep_buffer rb) \<le> nat (nstep rb)"
    using rb n by simp_all
  from RainbowReplayBuffer_pushes_ok [OF this, of calls] init rb
  show "map_sum id RainbowReplayBuffer_len
              (RainbowReplayBuffer_run (RainbowReplayBuffer_init avail cap n a b b_inc eps)
                 calls) =
             Inr (min (length calls - (nat n - 1)) (nat cap))"
    by (auto simp: RainbowReplayBuffer_len_def RainbowReplayBuffer_run_def)
qed

text \<open>
  The theorem at capacity 2 and three pushes: both one-step buffers hold 2 transitions,
  the n-step buffer with \<^verbatim>\<open>nstep=3\<close> holds 1.
\<close>

theorem len_after_pushes_witness:
  "(0::int) < 2
   \<and> map_sum id ReplayBuffer_len
        (ReplayBuffer_pushes (ReplayBuffer_init 2)
           [(10::nat, 0, 1, 11, False, None), (11, 1, 1, 12, False, None), (12, 0, 1, 13, True, None)])
       = Inr 2
   \<and> (PriortizedReplayBuffer_init 1000 2 (6 / 10) (4 / 10) (1 / 1000) (1 / 100000)
         :: error + nat prio_buffer) =
       Inr \<lparr>capacity = 2, alpha = 6 / 10, beta = 4 / 10, beta_increment = 1 / 1000,
            epsilon = 1 / 100000, memory = [], priorities = [0, 0], pos = 0\<rparr>
   \<and> map_sum id PriortizedReplayBuffer_len
        (PriortizedReplayBuffer_run
           (PriortizedReplayBuffer_init 1000 2 (6 / 10) (4 / 10) (1 / 1000) (1 / 100000))
           [(10::nat, 0, 1, 11, False), (11, 1, 1, 12, False), (12, 0, 1, 13, True)])
       = Inr 2
   \<and> (RainbowReplayBuffer_init 1000 2 3 (6 / 10) (4 / 10) (1 / 1000) (1 / 100000)
         :: error + nat rainbow_buffer) =
       Inr \<lparr>capacity = 2, alpha = 6 / 10, beta = 4 / 10, beta_increment = 1 / 1000,
            epsilon = 1 / 100000, memory = [], priorities = [0, 0], pos = 0,
            nstep = 3, nstep_buffer = []\<rparr>
   \<and> map_sum id RainbowReplayBuffer_len
        (RainbowReplayBuffer_run
           (RainbowReplayBuffer_init 1000 2 3 (6 / 10) (4 / 10) (1 / 1000) (1 / 100000))
           [(3, (10::nat, 0, 1, 11, False)), (3, (11, 1, 1, 12, False)), (3, (12, 0, 1, 13, True))])
       = Inr 1"
proof -
  let ?pb = "\<lparr>capacity = 2, alpha = 6 / 10, beta = 4 / 10, beta_increment = 1 / 1000,
            epsilon = 1 / 100000, memory = [] :: nat transition list, priorities = [0, 0],
            pos = 0\<rparr>"
  let ?rb = "\<lparr>capacity = 2, alpha = 6 / 10, beta = 4 / 10, beta_increment = 1 / 1000,
            epsilon = 1 / 100000, memory = [] :: nat transition list, priorities = [0, 0],
            pos = 0, nstep = 3, nstep_buffer = []\<rparr>"
  have h0: "(0::int) < 2" by simp
  have h1: "PriortizedReplayBuffer_init 1000 2 (6 / 10) (4 / 10) (1 / 1000) (1 / 100000) = Inr ?pb"
    by (simp add: PriortizedReplayBuffer_init_def np_zeros_def numeral_2_eq_2)
  have h2: "(0::int) < 3
            \<and> RainbowReplayBuffer_init 1000 2 3 (6 / 10) (4 / 10) (1 / 1000) (1 / 100000) = Inr ?rb"
    by (simp add: RainbowReplayBuffer_init_def np_zeros_def deque_new_def numeral_2_eq_2)
  note inst = len_after_pushes [OF h0, where avail = 1000 and a = "6 / 10" and b = "4 / 10"
      and b_inc = "1 / 1000" and eps = "1 / 100000" and n = 3 and pb = ?pb and rb = ?rb
      and items = "[(10::nat, 0, 1, 11, False, None), (11, 1, 1, 12, False, None),
                    (12, 0, 1, 13, True, None)]"
      and items' = "[(10::nat, 0, 1, 11, False), (11, 1, 1, 12, False), (12, 0, 1, 13, True)]"
      and calls = "[(3, (10::nat, 0, 1, 11, False)), (3, (11, 1, 1, 12, False)),
                    (3, (12, 0, 1, 13, True))]"]
  note u = inst [THEN conjunct1]
  note p = inst [THEN conjunct2, THEN conjunct1, THEN mp, OF h1]
  note r = inst [THEN conjunct2, THEN conjunct2, THEN mp, OF h2]
  from h0 h1 h2 u p r show ?thesis by simp
qed

section \<open>Sampling with priorities\<close>

lemmas sample_simps =
  PriortizedReplayBuffer_sample_def np_random_choice_def sampling_probs_def is_weights_def
  np_power_def array_max_def list_get_all_def py_slice_to_def float_of_bool_def Let_def
  torch_stack_def torch_tensor_long_def same_shape_def int64_def state_of_def action_of_def
  next_state_of_def

lemma torch_stack_InrD:
  "torch_stack ts = Inr r \<Longrightarrow> r = ts \<and> ts \<noteq> [] \<and> same_shape ts"
  by (auto simp: torch_stack_def split: if_splits)

lemma torch_tensor_long_InrD:
  "torch_tensor_long xs = Inr r \<Longrightarrow> r = xs \<and> list_all int64 xs"
  by (auto simp: torch_tensor_long_def split: if_splits)

lemma sample_InrD:
  assumes "PriortizedReplayBuffer_sample b batch_size draw =
             Inr ((states, actions, rewards, next_states, dones, weights, indices), b')"
  shows "b' = b\<lparr>beta := min 1 (beta b + beta_increment b)\<rparr>"
    and "indices = draw" and "draw \<noteq> []"
    and "list_all (\<lambda>i. i < length (memory b)) draw"
    and "\<exists>probs. sampling_probs
                  (if int (length (memory b)) = capacity b then priorities b
                   else py_slice_to (priorities b) (pos b)) (epsilon b) (alpha b) = Some probs
               \<and> length probs = length (memory b) \<and> \<not> list_ex (\<lambda>x. x < 0) probs
               \<and> sum_list probs = 1 \<and> 0 \<le> batch_size
               \<and> is_weights (length (memory b)) probs draw (beta b) = Some weights"
    and "length states = length draw" and "length actions = length draw"
    and "length rewards = length draw" and "length next_states = length draw"
    and "length dones = length draw" 
  using assms
  unfolding PriortizedReplayBuffer_sample_def np_random_choice_def list_get_all_eq Let_def
  by (auto split: option.splits sum.splits if_splits
           dest!: torch_stack_InrD torch_tensor_long_InrD)

lemma sample_state:
  assumes "PriortizedReplayBuffer_sample b batch_size draw = Inr (batch, b')"
  shows "b' = b\<lparr>beta := min 1 (beta b + beta_increment b)\<rparr>"
  using assms
  unfolding PriortizedReplayBuffer_sample_def np_random_choice_def list_get_all_eq Let_def
  by (auto split: option.splits sum.splits if_splits
           dest!: torch_stack_InrD torch_tensor_long_InrD)

lemma np_power_nonneg: "np_power x a = Some y \<Longrightarrow> 0 \<le> x \<Longrightarrow> 0 \<le> y"
  by (auto simp: np_power_def split: if_splits)



lemma those_map_SomeD:
  assumes "those (map f xs) = Some ys"
  shows "ys = map (\<lambda>x. the (f x)) xs \<and> (\<forall>x \<in> set xs. f x = Some (the (f x)))"
  using assms
proof (induction xs arbitrary: ys)
  case Nil
  then show ?case by simp
next
  case (Cons x xs)
  then show ?case by (auto split: option.splits)
qed

lemma is_weights_normalised:
  assumes "is_weights n probs indices b = Some weights"
    and "\<And>i. i \<in> set indices \<Longrightarrow> 0 \<le> probs ! i"
  shows "weights \<noteq> [] \<and> length weights = length indices
       \<and> (\<forall>w \<in> set weights. 0 \<le> w \<and> w \<le> 1) \<and> Max (set weights) = 1"
proof -
  define f where "f = (\<lambda>i. np_power (real n * probs ! i) (- b))"
  from assms(1) obtain raw m where raw: "those (map f indices) = Some raw"
    and m: "array_max raw = Some m" and m0: "m \<noteq> 0"
    and weights: "weights = map (\<lambda>w. w / m) raw"
    by (auto simp: is_weights_def f_def split: option.splits if_splits)
  from those_map_SomeD [OF raw] have raw_eq: "raw = map (\<lambda>i. the (f i)) indices"
    and some: "\<And>i. i \<in> set indices \<Longrightarrow> f i = Some (the (f i))" by blast+
  have raw_nonempty: "raw \<noteq> []" using m by (auto simp: array_max_def)
  then have m_eq: "m = Max (set raw)" using m array_max_eq [of raw] by simp
  have raw_nonneg: "0 \<le> r" if "r \<in> set raw" for r
  proof -
    from that obtain i where i: "i \<in> set indices" "r = the (f i)" by (auto simp: raw_eq)
    have "0 \<le> real n * probs ! i" using assms(2) [OF i(1)] by simp
    with some [OF i(1)] i(2) show ?thesis
      unfolding f_def by (metis np_power_nonneg)
  qed
  have m_in: "m \<in> set raw" using raw_nonempty m_eq by (simp add: Max_in)
  have m_pos: "0 < m" using raw_nonneg [OF m_in] m0 by simp
  have le_m: "r \<le> m" if "r \<in> set raw" for r using that m_eq by simp
  have bounds: "0 \<le> w \<and> w \<le> 1" if "w \<in> set weights" for w
  proof -
    from that obtain r where r: "r \<in> set raw" "w = r / m" by (auto simp: weights)
    with raw_nonneg [OF r(1)] le_m [OF r(1)] m_pos show ?thesis by simp
  qed
  have one_in: "1 \<in> set weights"
  proof -
    have "m / m \<in> set weights" using m_in unfolding weights by (simp add: image_iff) blast
    then show ?thesis using m0 by simp
  qed
  have "Max (set weights) = 1"
    using bounds one_in by (intro Max_eqI) auto
  moreover have "weights \<noteq> []" using raw_nonempty by (simp add: weights)
  moreover have "length weights = length indices" by (simp add: weights raw_eq)
  ultimately show ?thesis using bounds by blast
qed

lemma RainbowReplayBuffer_sample_same:
  "RainbowReplayBuffer_sample b = PriortizedReplayBuffer_sample b"
  by (rule ext)+ (simp add: RainbowReplayBuffer_sample_def)

lemma sample_weights_normalised:
  assumes "PriortizedReplayBuffer_sample b batch_size draw =
             Inr ((states, actions, rewards, next_states, dones, weights, indices), b')"
  shows "weights \<noteq> [] \<and> length weights = length indices
           \<and> (\<forall>w \<in> set weights. 0 \<le> w \<and> w \<le> 1) \<and> Max (set weights) = 1"
proof -
  from sample_InrD(2,4,5) [OF assms] obtain probs where
    idx: "indices = draw" and in_range: "list_all (\<lambda>i. i < length (memory b)) draw"
    and len: "length probs = length (memory b)" and nonneg: "\<not> list_ex (\<lambda>x. x < 0) probs"
    and w: "is_weights (length (memory b)) probs draw (beta b) = Some weights"
    by blast
  have "0 \<le> probs ! i" if "i \<in> set draw" for i
  proof -
    have "i < length probs" using that in_range len by (simp add: list_all_iff)
    then have "probs ! i \<in> set probs" by simp
    with nonneg show ?thesis by (auto simp: list_ex_iff not_less)
  qed
  from is_weights_normalised [OF w this] idx show ?thesis by simp
qed

text \<open>
  Claim C8. In every batch that \<^verbatim>\<open>sample\<close> of a priority buffer returns, each
  importance-sampling weight lies between 0 and 1 and the largest weight is exactly 1
  (there is one weight per sampled index, and at least one). This is exact arithmetic on
  reals; a call whose float computation would leave the finite numbers returns no batch
  in this model.
\<close>

theorem importance_weights_normalised:
  "(PriortizedReplayBuffer_sample b batch_size draw =
      Inr ((states, actions, rewards, next_states, dones, weights, indices), b') \<longrightarrow>
    weights \<noteq> [] \<and> length weights = length indices
      \<and> (\<forall>w \<in> set weights. 0 \<le> w \<and> w \<le> 1) \<and> Max (set weights) = 1)
   \<and> (RainbowReplayBuffer_sample r batch_size draw =
      Inr ((states, actions, rewards, next_states, dones, weights, indices), r') \<longrightarrow>
    weights \<noteq> [] \<and> length weights = length indices
      \<and> (\<forall>w \<in> set weights. 0 \<le> w \<and> w \<le> 1) \<and> Max (set weights) = 1)"
proof (rule conjI; rule impI)
  assume "PriortizedReplayBuffer_sample b batch_size draw =
            Inr ((states, actions, rewards, next_states, dones, weights, indices), b')"
  then show "weights \<noteq> [] \<and> length weights = length indices
      \<and> (\<forall>w \<in> set weights. 0 \<le> w \<and> w \<le> 1) \<and> Max (set weights) = 1"
    by (rule sample_weights_normalised)
next
  assume "RainbowReplayBuffer_sample r batch_size draw =
            Inr ((states, actions, rewards, next_states, dones, weights, indices), r')"
  then have "PriortizedReplayBuffer_sample r batch_size draw =
            Inr ((states, actions, rewards, next_states, dones, weights, indices), r')"
    by (simp add: RainbowReplayBuffer_sample_def)
  then show "weights \<noteq> [] \<and> length weights = length indices
      \<and> (\<forall>w \<in> set weights. 0 \<le> w \<and> w \<le> 1) \<and> Max (set weights) = 1"
    by (rule sample_weights_normalised)
qed

text \<open>
  The theorem at a full buffer with priorities 1 and 3, \<^verbatim>\<open>alpha = beta = 1\<close> and the
  draw \<open>[0, 1]\<close> (weights 1 and 100001/300001), and at an n-step buffer holding one
  transition, with the default exponents and the draw \<open>[0, 0]\<close> (weights 1 and 1).
  The states are tensors of one entry.
\<close>

theorem importance_weights_normalised_witness:
  "PriortizedReplayBuffer_sample
      \<lparr>capacity = 2, alpha = 1, beta = 1, beta_increment = 1 / 1000, epsilon = 1 / 100000,
       memory = [(Tensor [1] [10], 0, 1, Tensor [1] [11], False),
                 (Tensor [1] [20], 1, 1, Tensor [1] [21], True)], priorities = [1, 3],
       pos = 0\<rparr> 2 [0, 1]
   = Inr (([Tensor [1] [10], Tensor [1] [20]], [0, 1], [1, 1],
           [Tensor [1] [11], Tensor [1] [21]], [0, 1], [1, 100001 / 300001], [0, 1]),
      \<lparr>capacity = 2, alpha = 1, beta = 1, beta_increment = 1 / 1000, epsilon = 1 / 100000,
       memory = [(Tensor [1] [10], 0, 1, Tensor [1] [11], False),
                 (Tensor [1] [20], 1, 1, Tensor [1] [21], True)], priorities = [1, 3],
       pos = 0\<rparr>)
   \<and> Max (set [1, 100001 / 300001 :: real]) = 1
   \<and> RainbowReplayBuffer_sample
      \<lparr>capacity = 4, alpha = 6 / 10, beta = 4 / 10, beta_increment = 1 / 1000,
       epsilon = 1 / 100000, memory = [(Tensor [1] [10], 0, 1, Tensor [1] [11], False)],
       priorities = [1, 0, 0, 0],
       pos = 1, nstep = 1, nstep_buffer = [(Tensor [1] [10], 0, 1, Tensor [1] [11], False)]\<rparr>
      2 [0, 0]
   = Inr (([Tensor [1] [10], Tensor [1] [10]], [0, 0], [1, 1],
           [Tensor [1] [11], Tensor [1] [11]], [0, 0], [1, 1], [0, 0]),
      \<lparr>capacity = 4, alpha = 6 / 10, beta = 401 / 1000, beta_increment = 1 / 1000,
       epsilon = 1 / 100000, memory = [(Tensor [1] [10], 0, 1, Tensor [1] [11], False)],
       priorities = [1, 0, 0, 0],
       pos = 1, nstep = 1, nstep_buffer = [(Tensor [1] [10], 0, 1, Tensor [1] [11], False)]\<rparr>)
   \<and> Max (set [1, 1 :: real]) = 1"
proof -
  let ?b = "\<lparr>capacity = 2, alpha = 1, beta = 1, beta_increment = 1 / 1000, epsilon = 1 / 100000,
       memory = [(Tensor [1] [10], 0, 1, Tensor [1] [11], False),
                 (Tensor [1] [20], 1, 1, Tensor [1] [21], True)], priorities = [1, 3],
       pos = 0\<rparr>"
  let ?r = "\<lparr>capacity = 4, alpha = 6 / 10, beta = 4 / 10, beta_increment = 1 / 1000,
       epsilon = 1 / 100000, memory = [(Tensor [1] [10], 0, 1, Tensor [1] [11], False)],
       priorities = [1, 0, 0, 0],
       pos = 1, nstep = 1, nstep_buffer = [(Tensor [1] [10], 0, 1, Tensor [1] [11], False)]\<rparr>"
  let ?r' = "\<lparr>capacity = 4, alpha = 6 / 10, beta = 401 / 1000, beta_increment = 1 / 1000,
       epsilon = 1 / 100000, memory = [(Tensor [1] [10], 0, 1, Tensor [1] [11], False)],
       priorities = [1, 0, 0, 0],
       pos = 1, nstep = 1, nstep_buffer = [(Tensor [1] [10], 0, 1, Tensor [1] [11], False)]\<rparr>"
  have h1: "PriortizedReplayBuffer_sample ?b 2 [0, 1] =
              Inr (([Tensor [1] [10], Tensor [1] [20]], [0, 1], [1, 1],
                    [Tensor [1] [11], Tensor [1] [21]], [0, 1], [1, 100001 / 300001], [0, 1]), ?b)"
    by (simp add: sample_simps powr_minus_divide)
  have h2: "RainbowReplayBuffer_sample ?r 2 [0, 0] =
              Inr (([Tensor [1] [10], Tensor [1] [10]], [0, 0], [1, 1],
                    [Tensor [1] [11], Tensor [1] [11]], [0, 0], [1, 1], [0, 0]), ?r')"
    by (simp add: RainbowReplayBuffer_sample_def sample_simps)
  from importance_weights_normalised
         [of ?b 2 "[0, 1]" "[Tensor [1] [10], Tensor [1] [20]]" "[0, 1]" "[1, 1]"
             "[Tensor [1] [11], Tensor [1] [21]]" "[0, 1]"
             "[1, 100001 / 300001]" "[0, 1]" ?b] h1
  have m1: "Max (set [1, 100001 / 300001 :: real]) = 1" by blast
  from importance_weights_normalised
         [where r = ?r and r' = ?r' and batch_size = 2 and draw = "[0, 0]"
            and states = "[Tensor [1] [10], Tensor [1] [10]]" and actions = "[0, 0]"
            and rewards = "[1, 1]"
            and next_states = "[Tensor [1] [11], Tensor [1] [11]]" and dones = "[0, 0]"
            and weights = "[1, 1]"
            and indices = "[0, 0]"] h2
  have m2: "Max (set [1, 1 :: real]) = 1" by blast
  from h1 h2 m1 m2 show ?thesis by simp
qed

subsection \<open>When sample returns\<close>












subsection \<open>Annealing of beta\<close>

lemma RainbowReplayBuffer_sample_state:
  assumes "RainbowReplayBuffer_sample r batch_size draw = Inr (batch, r')"
  shows "r' = r\<lparr>beta := min 1 (beta r + beta_increment r)\<rparr>"
  using assms unfolding RainbowReplayBuffer_sample_def by (rule sample_state)

lemma after_sample_cases:
  assumes "\<And>b batch_size draw batch b'. smp b batch_size draw = Inr (batch, b') \<Longrightarrow>
             b' = b\<lparr>beta := min 1 (beta b + beta_increment b)\<rparr>"
  shows "after_sample smp b call = b
       \<or> after_sample smp b call = b\<lparr>beta := min 1 (beta b + beta_increment b)\<rparr>"
proof (cases "smp b (fst call) (snd call)")
  case (Inl e)
  then show ?thesis by (simp add: after_sample_def)
next
  case (Inr result)
  obtain batch b' where "result = (batch, b')" by (cases result)
  with Inr assms [of b "fst call" "snd call" batch b'] show ?thesis
    by (simp add: after_sample_def)
qed

lemma beta_trace_bounds:
  assumes step: "\<And>b batch_size draw batch b'. smp b batch_size draw = Inr (batch, b') \<Longrightarrow>
             b' = b\<lparr>beta := min 1 (beta b + beta_increment b)\<rparr>"
    and "beta b \<le> 1" and "0 \<le> beta_increment b"
  shows "sorted (beta_trace smp b calls)
       \<and> (\<forall>x \<in> set (beta_trace smp b calls). beta b \<le> x \<and> x \<le> 1)"
  using assms(2,3)
proof (induction calls arbitrary: b)
  case Nil
  then show ?case by simp
next
  case (Cons call calls)
  let ?b1 = "after_sample smp b call"
  have cases: "after_sample smp b call = b
       \<or> after_sample smp b call = b\<lparr>beta := min 1 (beta b + beta_increment b)\<rparr>"
    by (rule after_sample_cases) (rule step)
  have bounds: "beta b \<le> beta ?b1" "beta ?b1 \<le> 1"
    using cases Cons.prems by auto
  have "0 \<le> beta_increment ?b1" using cases Cons.prems(2) by auto
  from Cons.IH [OF bounds(2) this]
  have IH: "sorted (beta_trace smp ?b1 calls)"
           "\<forall>x \<in> set (beta_trace smp ?b1 calls). beta ?b1 \<le> x \<and> x \<le> 1"
    by blast+
  from IH bounds Cons.prems(1) show ?case by force
qed

lemma store_push_beta:
  "store_push b data = Inr b' \<Longrightarrow> beta b' = beta b \<and> beta_increment b' = beta_increment b"
  by (auto simp: store_push_def split: option.splits sum.splits if_splits)

lemma update_priorities_beta:
  "PriortizedReplayBuffer_update_priorities b indicies new_prior = (e, b') \<Longrightarrow>
     beta b' = beta b \<and> beta_increment b' = beta_increment b"
  by (auto simp: PriortizedReplayBuffer_update_priorities_def split: prod.splits)

text \<open>
  Claim C9, as stated, fails. The constructors accept every \<^verbatim>\<open>beta\<close> and every
  \<^verbatim>\<open>beta_increment\<close>. A \<^verbatim>\<open>PriortizedReplayBuffer\<close> built with \<^verbatim>\<open>beta=2\<close> holds a
  \<^verbatim>\<open>beta\<close> above 1, and its first returning \<^verbatim>\<open>sample\<close> lowers it to 1; a
  \<^verbatim>\<open>RainbowReplayBuffer\<close> built with \<^verbatim>\<open>beta=0.4, beta_increment=-0.1\<close> goes from
  0.4 to 0.3. In both runs one transition is pushed and \<^verbatim>\<open>sample(1)\<close> draws it.
\<close>

theorem beta_can_decrease:
  "(case PriortizedReplayBuffer_run
           (PriortizedReplayBuffer_init 1000 4 (6 / 10) 2 (1 / 1000) (1 / 100000))
           [(Tensor [1] [10], 0, 1, Tensor [1] [11], False)] of
      Inl e \<Rightarrow> Inl e
    | Inr b \<Rightarrow> Inr (beta_trace PriortizedReplayBuffer_sample b [(1, [0])]))
   = Inr [2, 1]
   \<and> (case RainbowReplayBuffer_run
           (RainbowReplayBuffer_init 1000 4 1 (6 / 10) (4 / 10) (- (1 / 10)) (1 / 100000))
           [(1, (Tensor [1] [10], 0, 1, Tensor [1] [11], False))] of
      Inl e \<Rightarrow> Inl e
    | Inr r \<Rightarrow> Inr (beta_trace RainbowReplayBuffer_sample r [(1, [0])]))
   = Inr [4 / 10, 3 / 10]"
  by (simp add: PriortizedReplayBuffer_run_def PriortizedReplayBuffer_init_def
        PriortizedReplayBuffer_push_def run_simps after_sample_def
        RainbowReplayBuffer_sample_def PriortizedReplayBuffer_sample_def np_random_choice_def
        sampling_probs_def is_weights_def np_power_def list_get_all_def py_slice_to_def
        torch_stack_def torch_tensor_long_def same_shape_def int64_def state_of_def
        action_of_def next_state_of_def Let_def eval_nat_numeral)

text \<open>
  Claim C9, amended. A \<^verbatim>\<open>sample\<close> call of either priority buffer that returns sets
  \<^verbatim>\<open>beta\<close> to \<open>min(1, beta + beta_increment)\<close>, which is at most 1, and keeps the
  increment; a call that raises leaves \<^verbatim>\<open>beta\<close> as it was. For a buffer whose
  \<^verbatim>\<open>beta\<close> is at most 1 and whose increment is not negative, the values of
  \<^verbatim>\<open>beta\<close> across any sequence of sample calls never decrease and never exceed 1.
  (Pushes and priority updates between the calls do not touch \<^verbatim>\<open>beta\<close>:
  \<open>store_push_beta\<close>, \<open>update_priorities_beta\<close>.)
\<close>

theorem beta_anneals:
  "(PriortizedReplayBuffer_sample b batch_size draw = Inr (batch, b') \<longrightarrow>
      beta b' = min 1 (beta b + beta_increment b) \<and> beta b' \<le> 1
      \<and> beta_increment b' = beta_increment b)
   \<and> (RainbowReplayBuffer_sample r batch_size draw = Inr (batch, r') \<longrightarrow>
      beta r' = min 1 (beta r + beta_increment r) \<and> beta r' \<le> 1
      \<and> beta_increment r' = beta_increment r)
   \<and> (PriortizedReplayBuffer_sample b batch_size draw = Inl e \<longrightarrow>
      after_sample PriortizedReplayBuffer_sample b (batch_size, draw) = b)
   \<and> (RainbowReplayBuffer_sample r batch_size draw = Inl e \<longrightarrow>
      after_sample RainbowReplayBuffer_sample r (batch_size, draw) = r)
   \<and> (beta b \<le> 1 \<and> 0 \<le> beta_increment b \<longrightarrow>
      sorted (beta_trace PriortizedReplayBuffer_sample b calls)
      \<and> (\<forall>x \<in> set (beta_trace PriortizedReplayBuffer_sample b calls). x \<le> 1))
   \<and> (beta r \<le> 1 \<and> 0 \<le> beta_increment r \<longrightarrow>
      sorted (beta_trace RainbowReplayBuffer_sample r calls)
      \<and> (\<forall>x \<in> set (beta_trace RainbowReplayBuffer_sample r calls). x \<le> 1))"
proof -
  have c1: "PriortizedReplayBuffer_sample b batch_size draw = Inr (batch, b') \<longrightarrow>
      beta b' = min 1 (beta b + beta_increment b) \<and> beta b' \<le> 1
      \<and> beta_increment b' = beta_increment b"
  proof
    assume "PriortizedReplayBuffer_sample b batch_size draw = Inr (batch, b')"
    then have "b' = b\<lparr>beta := min 1 (beta b + beta_increment b)\<rparr>"
      by (rule sample_state)
    then show "beta b' = min 1 (beta b + beta_increment b) \<and> beta b' \<le> 1
      \<and> beta_increment b' = beta_increment b"
      by simp
  qed
  have c2: "RainbowReplayBuffer_sample r batch_size draw = Inr (batch, r') \<longrightarrow>
      beta r' = min 1 (beta r + beta_increment r) \<and> beta r' \<le> 1
      \<and> beta_increment r' = beta_increment r"
  proof
    assume "RainbowReplayBuffer_sample r batch_size draw = Inr (batch, r')"
    then have "r' = r\<lparr>beta := min 1 (beta r + beta_increment r)\<rparr>"
      by (rule RainbowReplayBuffer_sample_state)
    then show "beta r' = min 1 (beta r + beta_increment r) \<and> beta r' \<le> 1
      \<and> beta_increment r' = beta_increment r"
      by simp
  qed
  have c3: "PriortizedReplayBuffer_sample b batch_size draw = Inl e \<longrightarrow>
      after_sample PriortizedReplayBuffer_sample b (batch_size, draw) = b"
    by (simp add: after_sample_def)
  have c4: "RainbowReplayBuffer_sample r batch_size draw = Inl e \<longrightarrow>
      after_sample RainbowReplayBuffer_sample r (batch_size, draw) = r"
    by (simp add: after_sample_def)
  have c5: "beta b \<le> 1 \<and> 0 \<le> beta_increment b \<longrightarrow>
      sorted (beta_trace PriortizedReplayBuffer_sample b calls)
      \<and> (\<forall>x \<in> set (beta_trace PriortizedReplayBuffer_sample b calls). x \<le> 1)"
  proof
    assume h: "beta b \<le> 1 \<and> 0 \<le> beta_increment b"
    have "sorted (beta_trace PriortizedReplayBuffer_sample b calls)
       \<and> (\<forall>x \<in> set (beta_trace PriortizedReplayBuffer_sample b calls). beta b \<le> x \<and> x \<le> 1)"
    proof (rule beta_trace_bounds)
      show "c' = c\<lparr>beta := min 1 (beta c + beta_increment c)\<rparr>"
        if "PriortizedReplayBuffer_sample c k d = Inr (y, c')" for c k d y c'
        using that by (rule sample_state)
      show "beta b \<le> 1" using h by simp
      show "0 \<le> beta_increment b" using h by simp
    qed
    then show "sorted (beta_trace PriortizedReplayBuffer_sample b calls)
      \<and> (\<forall>x \<in> set (beta_trace PriortizedReplayBuffer_sample b calls). x \<le> 1)"
      by blast
  qed
  have c6: "beta r \<le> 1 \<and> 0 \<le> beta_increment r \<longrightarrow>
      sorted (beta_trace RainbowReplayBuffer_sample r calls)
      \<and> (\<forall>x \<in> set (beta_trace RainbowReplayBuffer_sample r calls). x \<le> 1)"
  proof
    assume h: "beta r \<le> 1 \<and> 0 \<le> beta_increment r"
    have "sorted (beta_trace RainbowReplayBuffer_sample r calls)
       \<and> (\<forall>x \<in> set (beta_trace RainbowReplayBuffer_sample r calls). beta r \<le> x \<and> x \<le> 1)"
    proof (rule beta_trace_bounds)
      show "c' = c\<lparr>beta := min 1 (beta c + beta_increment c)\<rparr>"
        if "RainbowReplayBuffer_sample c k d = Inr (y, c')" for c k d y c'
        using that by (rule RainbowReplayBuffer_sample_state)
      show "beta r \<le> 1" using h by simp
      show "0 \<le> beta_increment r" using h by simp
    qed
    then show "sorted (beta_trace RainbowReplayBuffer_sample r calls)
      \<and> (\<forall>x \<in> set (beta_trace RainbowReplayBuffer_sample r calls). x \<le> 1)"
      by blast
  qed
  from c1 c2 c3 c4 c5 c6 show ?thesis by blast
qed

text \<open>
  The theorem at a priority buffer and an n-step buffer with the default
  \<^verbatim>\<open>beta = 0.4\<close> and increment 0.001, and three calls of which the second raises
  (negative batch size): \<^verbatim>\<open>beta\<close> goes 0.4, 0.401, 0.401, 0.402.
\<close>

theorem beta_anneals_witness:
  "PriortizedReplayBuffer_sample
      \<lparr>capacity = 4, alpha = 6 / 10, beta = 4 / 10, beta_increment = 1 / 1000,
       epsilon = 1 / 100000, memory = [(Tensor [1] [10], 0, 1, Tensor [1] [11], False)],
       priorities = [1, 0, 0, 0], pos = 1\<rparr> 2 [0, 0]
   = Inr (([Tensor [1] [10], Tensor [1] [10]], [0, 0], [1, 1],
           [Tensor [1] [11], Tensor [1] [11]], [0, 0], [1, 1], [0, 0]),
      \<lparr>capacity = 4, alpha = 6 / 10, beta = 401 / 1000, beta_increment = 1 / 1000,
       epsilon = 1 / 100000, memory = [(Tensor [1] [10], 0, 1, Tensor [1] [11], False)],
       priorities = [1, 0, 0, 0], pos = 1\<rparr>)
   \<and> RainbowReplayBuffer_sample
      \<lparr>capacity = 4, alpha = 6 / 10, beta = 4 / 10, beta_increment = 1 / 1000,
       epsilon = 1 / 100000, memory = [(Tensor [1] [10], 0, 1, Tensor [1] [11], False)],
       priorities = [1, 0, 0, 0], pos = 1, nstep = 1,
       nstep_buffer = [(Tensor [1] [10], 0, 1, Tensor [1] [11], False)]\<rparr> 2 [0, 0]
   = Inr (([Tensor [1] [10], Tensor [1] [10]], [0, 0], [1, 1],
           [Tensor [1] [11], Tensor [1] [11]], [0, 0], [1, 1], [0, 0]),
      \<lparr>capacity = 4, alpha = 6 / 10, beta = 401 / 1000, beta_increment = 1 / 1000,
       epsilon = 1 / 100000, memory = [(Tensor [1] [10], 0, 1, Tensor [1] [11], False)],
       priorities = [1, 0, 0, 0], pos = 1, nstep = 1,
       nstep_buffer = [(Tensor [1] [10], 0, 1, Tensor [1] [11], False)]\<rparr>)
   \<and> (401 / 1000 :: real) = min 1 (4 / 10 + 1 / 1000)
   \<and> PriortizedReplayBuffer_sample
      \<lparr>capacity = 4, alpha = 6 / 10, beta = 4 / 10, beta_increment = 1 / 1000,
       epsilon = 1 / 100000, memory = [(Tensor [1] [10], 0, 1, Tensor [1] [11], False)],
       priorities = [1, 0, 0, 0], pos = 1\<rparr> (- 1) [] = Inl ValueError
   \<and> after_sample PriortizedReplayBuffer_sample
      \<lparr>capacity = 4, alpha = 6 / 10, beta = 4 / 10, beta_increment = 1 / 1000,
       epsilon = 1 / 100000, memory = [(Tensor [1] [10], 0, 1, Tensor [1] [11], False)],
       priorities = [1, 0, 0, 0], pos = 1\<rparr> (- 1, [])
     = \<lparr>capacity = 4, alpha = 6 / 10, beta = 4 / 10, beta_increment = 1 / 1000,
       epsilon = 1 / 100000, memory = [(Tensor [1] [10], 0, 1, Tensor [1] [11], False)],
       priorities = [1, 0, 0, 0], pos = 1\<rparr>
   \<and> RainbowReplayBuffer_sample
      \<lparr>capacity = 4, alpha = 6 / 10, beta = 4 / 10, beta_increment = 1 / 1000,
       epsilon = 1 / 100000, memory = [(Tensor [1] [10], 0, 1, Tensor [1] [11], False)],
       priorities = [1, 0, 0, 0], pos = 1, nstep = 1,
       nstep_buffer = [(Tensor [1] [10], 0, 1, Tensor [1] [11], False)]\<rparr> (- 1) []
     = Inl ValueError
   \<and> after_sample RainbowReplayBuffer_sample
      \<lparr>capacity = 4, alpha = 6 / 10, beta = 4 / 10, beta_increment = 1 / 1000,
       epsilon = 1 / 100000, memory = [(Tensor [1] [10], 0, 1, Tensor [1] [11], False)],
       priorities = [1, 0, 0, 0], pos = 1, nstep = 1,
       nstep_buffer = [(Tensor [1] [10], 0, 1, Tensor [1] [11], False)]\<rparr> (- 1, [])
     = \<lparr>capacity = 4, alpha = 6 / 10, beta = 4 / 10, beta_increment = 1 / 1000,
       epsilon = 1 / 100000, memory = [(Tensor [1] [10], 0, 1, Tensor [1] [11], False)],
       priorities = [1, 0, 0, 0], pos = 1, nstep = 1,
       nstep_buffer = [(Tensor [1] [10], 0, 1, Tensor [1] [11], False)]\<rparr>
   \<and> beta_trace PriortizedReplayBuffer_sample
      \<lparr>capacity = 4, alpha = 6 / 10, beta = 4 / 10, beta_increment = 1 / 1000,
       epsilon = 1 / 100000, memory = [(Tensor [1] [10], 0, 1, Tensor [1] [11], False)],
       priorities = [1, 0, 0, 0], pos = 1\<rparr> [(2, [0, 0]), (- 1, []), (1, [0])]
     = [4 / 10, 401 / 1000, 401 / 1000, 402 / 1000]
   \<and> beta_trace RainbowReplayBuffer_sample
      \<lparr>capacity = 4, alpha = 6 / 10, beta = 4 / 10, beta_increment = 1 / 1000,
       epsilon = 1 / 100000, memory = [(Tensor [1] [10], 0, 1, Tensor [1] [11], False)],
       priorities = [1, 0, 0, 0], pos = 1, nstep = 1,
       nstep_buffer = [(Tensor [1] [10], 0, 1, Tensor [1] [11], False)]\<rparr>
      [(2, [0, 0]), (- 1, []), (1, [0])]
     = [4 / 10, 401 / 1000, 401 / 1000, 402 / 1000]
   \<and> sorted [4 / 10, 401 / 1000, 401 / 1000, 402 / 1000 :: real]"
proof -
  let ?b = "\<lparr>capacity = 4, alpha = 6 / 10, beta = 4 / 10, beta_increment = 1 / 1000,
       epsilon = 1 / 100000, memory = [(Tensor [1] [10], 0, 1, Tensor [1] [11], False)],
       priorities = [1, 0, 0, 0], pos = 1\<rparr>"
  let ?b' = "\<lparr>capacity = 4, alpha = 6 / 10, beta = 401 / 1000, beta_increment = 1 / 1000,
       epsilon = 1 / 100000, memory = [(Tensor [1] [10], 0, 1, Tensor [1] [11], False)],
       priorities = [1, 0, 0, 0], pos = 1\<rparr>"
  let ?r = "\<lparr>capacity = 4, alpha = 6 / 10, beta = 4 / 10, beta_increment = 1 / 1000,
       epsilon = 1 / 100000, memory = [(Tensor [1] [10], 0, 1, Tensor [1] [11], False)],
       priorities = [1, 0, 0, 0], pos = 1, nstep = 1,
       nstep_buffer = [(Tensor [1] [10], 0, 1, Tensor [1] [11], False)]\<rparr>"
  let ?r' = "\<lparr>capacity = 4, alpha = 6 / 10, beta = 401 / 1000, beta_increment = 1 / 1000,
       epsilon = 1 / 100000, memory = [(Tensor [1] [10], 0, 1, Tensor [1] [11], False)],
       priorities = [1, 0, 0, 0], pos = 1, nstep = 1,
       nstep_buffer = [(Tensor [1] [10], 0, 1, Tensor [1] [11], False)]\<rparr>"
  let ?batch = "([Tensor [1] [10], Tensor [1] [10]], [0, 0], [1, 1],
           [Tensor [1] [11], Tensor [1] [11]], [0, 0], [1, 1], [0, 0])
     :: tensor list \<times> int list \<times> real list \<times> tensor list \<times> real list \<times> real list \<times> nat list"
  let ?calls = "[(2, [0, 0]), (- 1, []), (1, [0])] :: (int \<times> nat list) list"
  have h1: "PriortizedReplayBuffer_sample ?b 2 [0, 0] = Inr (?batch, ?b')"
    by (simp add: sample_simps)
  have h2: "RainbowReplayBuffer_sample ?r 2 [0, 0] = Inr (?batch, ?r')"
    by (simp add: RainbowReplayBuffer_sample_def sample_simps)
  have h3: "PriortizedReplayBuffer_sample ?b (- 1) [] = Inl ValueError"
    by (simp add: sample_simps)
  have h4: "RainbowReplayBuffer_sample ?r (- 1) [] = Inl ValueError"
    by (simp add: RainbowReplayBuffer_sample_def sample_simps)
  have h5: "beta ?b \<le> 1 \<and> 0 \<le> beta_increment ?b" by simp
  have h6: "beta ?r \<le> 1 \<and> 0 \<le> beta_increment ?r" by simp
  have t1: "beta_trace PriortizedReplayBuffer_sample ?b ?calls
              = [4 / 10, 401 / 1000, 401 / 1000, 402 / 1000]"
    by (simp add: after_sample_def sample_simps)
  have t2: "beta_trace RainbowReplayBuffer_sample ?r ?calls
              = [4 / 10, 401 / 1000, 401 / 1000, 402 / 1000]"
    by (simp add: after_sample_def RainbowReplayBuffer_sample_def sample_simps)
  note i1 = beta_anneals [where b = ?b and b' = ?b' and r = ?r and r' = ?r'
      and batch_size = 2 and draw = "[0, 0]" and batch = ?batch and calls = ?calls]
  note i2 = beta_anneals [where b = ?b and r = ?r and batch_size = "- 1" and draw = "[]"
      and e = ValueError and calls = ?calls]
  note a = i1 [THEN conjunct1, THEN mp, OF h1]
  note b = i1 [THEN conjunct2, THEN conjunct1, THEN mp, OF h2]
  note c = i2 [THEN conjunct2, THEN conjunct2, THEN conjunct1, THEN mp, OF h3]
  note d = i2 [THEN conjunct2, THEN conjunct2, THEN conjunct2, THEN conjunct1, THEN mp, OF h4]
  note e = i1 [THEN conjunct2, THEN conjunct2, THEN conjunct2, THEN conjunct2, THEN conjunct1,
               THEN mp, OF h5]
  note f = i1 [THEN conjunct2, THEN conjunct2, THEN conjunct2, THEN conjunct2, THEN conjunct2,
               THEN mp, OF h6]
  from a have a': "(401 / 1000 :: real) = min 1 (4 / 10 + 1 / 1000)" by simp
  from e t1 have s: "sorted [4 / 10, 401 / 1000, 401 / 1000, 402 / 1000 :: real]" by simp
  show ?thesis
    by (intro conjI)
       (rule h1, rule h2, rule a', rule h3, rule c, rule h4, rule d, rule t1, rule t2, rule s)
qed

end
